theory Spec2Isabelle
  imports Complex_Main
begin

section \<open>Data model\<close>

text \<open>
  The \<^verbatim>\<open>Product\<close> interface of the repository. Optional fields are options
  (\<open>None\<close> is JavaScript's \<^verbatim>\<open>undefined\<close>). Prices are JavaScript numbers; they are
  modelled as exact rationals, so comparisons are the source's comparisons and the
  arithmetic of the notification engine is read without the rounding of IEEE doubles.
  Timestamps are the ISO strings the source stores.
\<close>

record Product =
  pid :: string
  url :: string
  desiredPrice :: rat
  currentPrice :: "rat option"
  mrp :: "rat option"
  name :: "string option"
  brand :: "string option"
  imageUrl :: "string option"
  isBelow :: "bool option"
  lastChecked :: "string option"
  ecommercePlatform :: "string option"
  lastNotifiedPrice :: "rat option"
  lastNotifiedDate :: "string option"
  addedAt :: "string option"
  offers :: "string list option"

text \<open>JavaScript truthiness of an optional number, string and boolean.\<close>

definition truthyNum :: "rat option \<Rightarrow> bool" where
  "truthyNum x = (case x of None \<Rightarrow> False | Some v \<Rightarrow> v \<noteq> 0)"

definition truthyStr :: "string option \<Rightarrow> bool" where
  "truthyStr x = (case x of None \<Rightarrow> False | Some s \<Rightarrow> s \<noteq> [])"

definition truthyBool :: "bool option \<Rightarrow> bool" where
  "truthyBool x = (case x of None \<Rightarrow> False | Some b \<Rightarrow> b)"

text \<open>
  \<^verbatim>\<open>String.prototype.toLowerCase\<close> on the ASCII letters. The platform names the
  source compares against (\<^verbatim>\<open>'amazon'\<close>, \<^verbatim>\<open>'unknown'\<close>) are ASCII, and no
  character outside ASCII lower-cases to one of their letters.
\<close>

definition lowerChar :: "char \<Rightarrow> char" where
  "lowerChar c =
     (case map_of (zip ''ABCDEFGHIJKLMNOPQRSTUVWXYZ'' ''abcdefghijklmnopqrstuvwxyz'') c of
        Some l \<Rightarrow> l
      | None \<Rightarrow> c)"

definition toLowerCase :: "string \<Rightarrow> string" where
  "toLowerCase s = map lowerChar s"

section \<open>The JavaScript \<^verbatim>\<open>Map\<close>\<close>

text \<open>
  A \<^verbatim>\<open>Map\<close> iterates in insertion order, and \<^verbatim>\<open>set\<close> on a key that is already
  present replaces the value where the key stands. It is an association list with
  distinct keys.
\<close>

type_synonym ('k, 'v) jsmap = "('k \<times> 'v) list"

fun map_set :: "('k, 'v) jsmap \<Rightarrow> 'k \<Rightarrow> 'v \<Rightarrow> ('k, 'v) jsmap" where
  "map_set [] k v = [(k, v)]"
| "map_set ((k', v') # m) k v =
     (if k' = k then (k', v) # m else (k', v') # map_set m k v)"

fun new_Map :: "('k, 'v) jsmap \<Rightarrow> ('k \<times> 'v) list \<Rightarrow> ('k, 'v) jsmap" where
  "new_Map m [] = m"
| "new_Map m ((k, v) # es) = new_Map (map_set m k v) es"

definition map_has :: "('k, 'v) jsmap \<Rightarrow> 'k \<Rightarrow> bool" where
  "map_has m k = (k \<in> fst ` set m)"

definition map_get :: "('k, 'v) jsmap \<Rightarrow> 'k \<Rightarrow> 'v option" where
  "map_get m k = map_of m k"

definition map_delete :: "('k, 'v) jsmap \<Rightarrow> 'k \<Rightarrow> ('k, 'v) jsmap" where
  "map_delete m k = filter (\<lambda>e. fst e \<noteq> k) m"

section \<open>Persistent product store: \<^verbatim>\<open>saveProducts\<close>\<close>

text \<open>
  The first loop of \<^verbatim>\<open>saveProducts\<close> walks the entries of \<^verbatim>\<open>currentProductMap\<close>;
  it pushes the scanned version of a product when \<^verbatim>\<open>productMap\<close> has its id (and
  deletes the id from \<^verbatim>\<open>productMap\<close>), and the stored record otherwise.
\<close>

fun mergeCurrent ::
  "(string, Product) jsmap \<Rightarrow> (string, Product) jsmap \<Rightarrow> Product list
     \<Rightarrow> Product list \<times> (string, Product) jsmap" where
  "mergeCurrent [] productMap merged = (merged, productMap)"
| "mergeCurrent ((i, currentProduct) # rest) productMap merged =
     (if map_has productMap i
      then (case map_get productMap i of
              Some p \<Rightarrow> mergeCurrent rest (map_delete productMap i) (merged @ [p])
            | None \<Rightarrow> mergeCurrent rest (map_delete productMap i) merged)
      else mergeCurrent rest productMap (merged @ [currentProduct]))"

text \<open>The second loop pushes what is left in \<^verbatim>\<open>productMap\<close>.\<close>

definition mergedProducts :: "Product list \<Rightarrow> Product list \<Rightarrow> Product list" where
  "mergedProducts currentProducts products =
     (let productMap = new_Map [] (map (\<lambda>p. (pid p, p)) products);
          currentProductMap = new_Map [] (map (\<lambda>p. (pid p, p)) currentProducts);
          (merged, remaining) = mergeCurrent currentProductMap productMap []
      in merged @ map snd remaining)"

text \<open>
  A partition file is missing, holds something \<^verbatim>\<open>JSON.parse\<close> or the map
  construction throws on, or holds a list of products.
\<close>

datatype pfile = Missing | Corrupt | Stored "Product list"

datatype error =
  ParseError | IoError | TypeError
| UnsupportedPlatform | FetchFailed | ScrapeFailed | InvalidScrapeResult

text \<open>
  \<^verbatim>\<open>saveProducts\<close> on the file of one partition. \<open>lockBusy\<close> says that
  \<^verbatim>\<open>acquireLock\<close> gave up after its bounded wait (the function then returns
  \<^verbatim>\<open>false\<close> and writes nothing); \<open>ioFails\<close> says that a file-system call inside the
  \<^verbatim>\<open>try\<close> block throws (the error is rethrown after the lock is released, and the
  partition file is as before, since the write goes to a temporary file).
\<close>

definition saveFile :: "bool \<Rightarrow> bool \<Rightarrow> pfile \<Rightarrow> Product list \<Rightarrow> (error + bool) \<times> pfile" where
  "saveFile lockBusy ioFails f products =
     (if lockBusy then (Inr False, f)
      else if ioFails then (Inl IoError, f)
      else (case f of
              Missing \<Rightarrow> (Inr True, Stored (mergedProducts [] products))
            | Corrupt \<Rightarrow> (Inl ParseError, f)
            | Stored currentProducts \<Rightarrow>
                (Inr True, Stored (mergedProducts currentProducts products))))"

text \<open>
  The partitions on disk, keyed by file: \<^verbatim>\<open>getDataFilePath\<close> lower-cases the
  platform name.
\<close>

type_synonym files = "string \<Rightarrow> pfile"

definition saveProducts ::
  "bool \<Rightarrow> bool \<Rightarrow> string \<Rightarrow> Product list \<Rightarrow> files \<Rightarrow> (error + bool) \<times> files" where
  "saveProducts lockBusy ioFails platform products fs =
     (let (r, f) = saveFile lockBusy ioFails (fs (toLowerCase platform)) products
      in (r, fs(toLowerCase platform := f)))"

section \<open>Notification decision engine\<close>

text \<open>
  What the engine reads from outside the product: the clock and the outcome of the
  Telegram call. \<open>parseLocalDate\<close> is \<^verbatim>\<open>new Date(dateString)\<close> read in local time
  (\<open>None\<close> for an invalid date), \<open>todayLocal\<close> is \<^verbatim>\<open>new Date()\<close> read the same way,
  \<open>nowISO\<close> is \<^verbatim>\<open>new Date().toISOString()\<close>, and \<open>telegramOk\<close> is what
  \<^verbatim>\<open>sendTelegramNotification\<close> resolves to (it never throws).
\<close>

record jsdate =
  getFullYear :: int
  getMonth :: int
  getDate :: int

record notify_env =
  parseLocalDate :: "string \<Rightarrow> jsdate option"
  todayLocal :: jsdate
  nowISO :: string
  telegramOk :: bool

definition isToday :: "('a notify_env_scheme) \<Rightarrow> string option \<Rightarrow> bool" where
  "isToday env dateString =
     (if \<not> truthyStr dateString then False
      else (case dateString of
              None \<Rightarrow> False
            | Some s \<Rightarrow>
                (case parseLocalDate env s of
                   None \<Rightarrow> False
                 | Some d \<Rightarrow>
                     getDate d = getDate (todayLocal env) \<and>
                     getMonth d = getMonth (todayLocal env) \<and>
                     getFullYear d = getFullYear (todayLocal env))))"

text \<open>
  The messages handed to \<^verbatim>\<open>sendTelegramNotification\<close>. The text of a message is
  computed from the product it is about; the model keeps the kind and the product.
\<close>

datatype telegram_message =
  DailyUpdate Product
| PriceAlert Product
| FurtherDrop Product
| ScanSummary nat nat bool

text \<open>The object returned when no notification was sent (end of the function).\<close>

definition keepNotified :: "Product \<Rightarrow> Product" where
  "keepNotified product =
     product\<lparr>lastNotifiedPrice :=
                (if truthyNum (lastNotifiedPrice product) then lastNotifiedPrice product else None),
              lastNotifiedDate :=
                (if truthyStr (lastNotifiedDate product) then lastNotifiedDate product else None)\<rparr>"

text \<open>The object returned after a notification was sent with success.\<close>

definition markNotified :: "('a notify_env_scheme) \<Rightarrow> Product \<Rightarrow> Product" where
  "markNotified env product =
     product\<lparr>lastNotifiedPrice := currentPrice product, lastNotifiedDate := Some (nowISO env)\<rparr>"

definition dropPercentage :: "rat \<Rightarrow> rat \<Rightarrow> rat" where
  "dropPercentage notified current = ((notified - current) / notified) * 100"

text \<open>The first guard of \<^verbatim>\<open>processNotifications\<close>: a required field is missing.\<close>

definition missingRequiredFields :: "Product \<Rightarrow> bool" where
  "missingRequiredFields product =
     (\<not> truthyStr (name product) \<or> \<not> truthyNum (currentPrice product)
      \<or> \<not> truthyNum (Some (desiredPrice product)))"

text \<open>
  \<^verbatim>\<open>processNotifications\<close>: the updated product and the messages handed to the
  notifier, in the order of the source's branches.
\<close>

definition processNotifications ::
  "('a notify_env_scheme) \<Rightarrow> Product \<Rightarrow> Product \<Rightarrow> Product \<times> telegram_message list" where
  "processNotifications env product previousProduct =
     (if missingRequiredFields product
      then (product, [])
      else if \<not> truthyBool (isBelow product)
      then (product\<lparr>lastNotifiedPrice := None, lastNotifiedDate := None\<rparr>, [])
      else
        (let isNewDay = (\<not> truthyStr (lastNotifiedDate product)
                          \<or> \<not> isToday env (lastNotifiedDate product));
             priceUnchanged = (currentPrice previousProduct = currentPrice product)
         in if priceUnchanged \<and> \<not> isNewDay
            then (product\<lparr>lastNotifiedPrice := lastNotifiedPrice previousProduct,
                          lastNotifiedDate := lastNotifiedDate previousProduct\<rparr>, [])
            else if priceUnchanged \<and> isNewDay
            then (if telegramOk env
                  then (markNotified env product, [DailyUpdate product])
                  else (keepNotified product, [DailyUpdate product]))
            else if \<not> truthyStr (lastNotifiedDate product)
                    \<or> (currentPrice product \<noteq> lastNotifiedPrice product
                        \<and> \<not> isToday env (lastNotifiedDate product))
            then (if telegramOk env
                  then (markNotified env product, [PriceAlert product])
                  else (keepNotified product, [PriceAlert product]))
            else
              (case (lastNotifiedPrice product, currentPrice product) of
                 (Some notified, Some current) \<Rightarrow>
                   (if notified \<noteq> 0 \<and> current < notified
                    then (if dropPercentage notified current \<ge> 1
                          then (if telegramOk env
                                then (markNotified env product, [FurtherDrop product])
                                else (keepNotified product, [FurtherDrop product]))
                          else (keepNotified product, []))
                    else (keepNotified product, []))
               | _ \<Rightarrow> (keepNotified product, []))))"

section \<open>Processing one product\<close>

text \<open>The data the scrape API returns; \<open>price\<close> is \<open>None\<close> when the field is missing.\<close>

record ScrapedProductData =
  productName :: string
  scrapedBrand :: "string option"
  price :: "rat option"
  scrapedMrp :: "rat option"
  scrapedPlatform :: string

text \<open>
  \<^verbatim>\<open>scrapeProduct\<close>: \<open>unsupported\<close> says that \<^verbatim>\<open>detectPlatform(url)\<close> is
  \<^verbatim>\<open>'Unknown'\<close>; the response is what the call of the scrape API does.
\<close>

datatype scrape_response =
  FetchThrows
| HttpNotOk
| Body bool "ScrapedProductData option"

definition scrapeProduct :: "bool \<Rightarrow> scrape_response \<Rightarrow> error + ScrapedProductData" where
  "scrapeProduct unsupported response =
     (if unsupported then Inl UnsupportedPlatform
      else (case response of
              FetchThrows \<Rightarrow> Inl FetchFailed
            | HttpNotOk \<Rightarrow> Inl ScrapeFailed
            | Body success data \<Rightarrow>
                (case data of
                   None \<Rightarrow> Inl InvalidScrapeResult
                 | Some d \<Rightarrow> if \<not> success then Inl InvalidScrapeResult else Inr d)))"

text \<open>
  The environment of one call of \<^verbatim>\<open>processSingleProduct\<close>: the clock and notifier
  as above, the response of the scrape API at each attempt, the timestamp written to
  \<^verbatim>\<open>lastChecked\<close>, and \<open>stopLater k\<close>, which says that a stop request has been
  handled by the time the product checks the flag before attempt \<open>k\<close> (the check
  before attempt 0 is made in the same turn as the call, so it reads the flag the
  caller passes).
\<close>

record product_env = notify_env +
  unsupported :: bool
  responses :: "nat \<Rightarrow> scrape_response"
  checkedAt :: string
  stopLater :: "nat \<Rightarrow> bool"

definition maxRetries :: nat where
  "maxRetries = 2"

definition isAmazon :: "Product \<Rightarrow> bool" where
  "isAmazon product =
     (case ecommercePlatform product of
        None \<Rightarrow> False
      | Some s \<Rightarrow> toLowerCase s = ''amazon'')"

text \<open>The object built from a scrape that returned data.\<close>

definition applyScrape :: "string \<Rightarrow> Product \<Rightarrow> ScrapedProductData \<Rightarrow> Product" where
  "applyScrape now product scrapedData =
     product\<lparr>name := Some (productName scrapedData),
              brand := scrapedBrand scrapedData,
              currentPrice := price scrapedData,
              mrp := (if truthyNum (scrapedMrp scrapedData) then scrapedMrp scrapedData
                      else mrp product),
              isBelow := Some (case price scrapedData of
                                 None \<Rightarrow> False
                               | Some v \<Rightarrow> v > 0 \<and> v \<le> desiredPrice product),
              lastChecked := Some now,
              ecommercePlatform := Some (scrapedPlatform scrapedData),
              imageUrl := imageUrl product\<rparr>"

text \<open>
  The retry loop. A result \<open>Inl\<close> would be a rejected promise; the messages are those
  handed to the notifier.
\<close>

function attemptLoop ::
  "product_env \<Rightarrow> bool \<Rightarrow> Product \<Rightarrow> nat \<Rightarrow> (error + Product) \<times> telegram_message list" where
  "attemptLoop env stopNow product attempt =
     (if \<not> attempt \<le> maxRetries
      then (Inr (product\<lparr>lastChecked := Some (checkedAt env)\<rparr>), [])
      else if (if attempt = 0 then stopNow else stopLater env attempt)
      then (Inr product, [])
      else (case scrapeProduct (unsupported env) (responses env attempt) of
              Inr scrapedData \<Rightarrow>
                (if isAmazon product \<and> \<not> truthyNum (price scrapedData)
                 then (Inr product, [])
                 else (let (updatedProduct, sent) =
                             processNotifications env
                               (applyScrape (checkedAt env) product scrapedData) product
                       in (Inr updatedProduct, sent)))
            | Inl e \<Rightarrow>
                (if attempt = maxRetries
                 then (if isAmazon product then (Inr product, [])
                       else (Inr (product\<lparr>lastChecked := Some (checkedAt env)\<rparr>), []))
                 else attemptLoop env stopNow product (attempt + 1))))"
  by pat_completeness auto
termination
  by (relation "measure (\<lambda>(env, stopNow, product, attempt). Suc maxRetries - attempt)") auto

definition processSingleProduct ::
  "product_env \<Rightarrow> bool \<Rightarrow> Product \<Rightarrow> (error + Product) \<times> telegram_message list" where
  "processSingleProduct env stopNow product =
     (if stopNow then (Inr product, []) else attemptLoop env stopNow product 0)"

section \<open>Scanner state controller\<close>

text \<open>
  The scanner state file: missing, unreadable, or holding the flag
  \<^verbatim>\<open>isScanning\<close> (the time stamp and scan id stored with it are not read by the
  orchestrator). \<^verbatim>\<open>getScannerState\<close> writes the default state when the file is
  missing and returns the default state on any error.
\<close>

datatype sfile = NoStateFile | BadStateFile | StateFile bool

definition getScannerState :: "sfile \<Rightarrow> bool \<times> sfile" where
  "getScannerState f =
     (case f of
        NoStateFile \<Rightarrow> (False, StateFile False)
      | BadStateFile \<Rightarrow> (False, BadStateFile)
      | StateFile isScanning \<Rightarrow> (isScanning, f))"

definition setScannerState :: "bool \<Rightarrow> sfile \<Rightarrow> sfile" where
  "setScannerState isScanning f = StateFile isScanning"

section \<open>Batch scan orchestrator\<close>

text \<open>
  The log entries the handler writes, in their three shapes (time stamps, durations
  and the scan id are clock and random values and are left out).
\<close>

datatype scan_status = Completed | Stopped | Failed

datatype log_entry =
  NoProductsEntry bool
| ScanEntry scan_status nat nat nat nat bool bool
| ErrorEntry error bool

fun entryStatus :: "log_entry \<Rightarrow> scan_status" where
  "entryStatus (NoProductsEntry isContinuous) = Completed"
| "entryStatus (ScanEntry status productsScanned successes failures notified isContinuous
                  stoppedManually) = status"
| "entryStatus (ErrorEntry e isContinuous) = Failed"

text \<open>\<^verbatim>\<open>logScanActivity\<close> keeps the last 49 entries and appends the new one.\<close>

definition logScanActivity :: "log_entry list \<Rightarrow> log_entry \<Rightarrow> log_entry list" where
  "logScanActivity logData entry = drop (length logData - 49) logData @ [entry]"

text \<open>
  The module state and what the handler writes to: the two flags, the partition
  files, the scanner state file, the log file, the delays of the follow-up callbacks
  registered with \<^verbatim>\<open>setTimeout\<close>, and the messages handed to the notifier.
\<close>

record world =
  scanInProgress :: bool
  stopRequested :: bool
  files :: files
  stateFile :: sfile
  logFile :: "log_entry list"
  timers :: "nat list"
  outbox :: "telegram_message list"

definition getScanInProgressStatus :: "world \<Rightarrow> bool" where
  "getScanInProgressStatus w = scanInProgress w"

definition requestScannerStop :: "world \<Rightarrow> world" where
  "requestScannerStop w = (if scanInProgress w then w\<lparr>stopRequested := True\<rparr> else w)"

text \<open>The stop route is called, or not, while the scan handler is suspended.\<close>

definition stopRoute :: "bool \<Rightarrow> world \<Rightarrow> world" where
  "stopRoute called w = (if called then requestScannerStop w else w)"

record counters =
  successCount :: nat
  failureCount :: nat
  notificationCount :: nat

text \<open>
  What a scan pass reads from outside. Products are addressed by their platform key
  and their index in the platform's list. The handler is suspended on a timer or a
  network call in three places, and only there can the stop route run:
  \<open>stopDuringBatch\<close> (while the batch starting at an index is awaited),
  \<open>stopDuringThrottle\<close> (during the pause after it) and \<open>stopDuringSummary\<close>
  (during the summary notification). The awaits of \<^verbatim>\<open>saveProducts\<close>,
  \<^verbatim>\<open>logScanActivity\<close> and \<^verbatim>\<open>cleanupOldProducts\<close> resolve without a timer or a
  network call (the lock is free whenever it is asked for), so no request is handled
  during them. What one product of a batch sees of a stop request is in its own
  \<open>stopLater\<close>; the environment is not asked to be consistent across the products of
  a batch, so every run of the program is among the runs described here.
\<close>

record scan_env =
  productEnv :: "string \<Rightarrow> nat \<Rightarrow> product_env"
  stopDuringBatch :: "string \<Rightarrow> nat \<Rightarrow> bool"
  stopDuringThrottle :: "string \<Rightarrow> nat \<Rightarrow> bool"
  stopDuringSummary :: bool
  saveThrows :: "string \<Rightarrow> bool"
  cleanupThrows :: "string \<Rightarrow> bool"
  nowMs :: int
  parseTime :: "string \<Rightarrow> int option"

text \<open>
  \<^verbatim>\<open>loadProducts\<close>: a missing file is created empty, a file that does not parse
  gives the empty list after the retries.
\<close>

definition loadProducts :: "string \<Rightarrow> files \<Rightarrow> Product list \<times> files" where
  "loadProducts platform fs =
     (case fs (toLowerCase platform) of
        Missing \<Rightarrow> ([], fs(toLowerCase platform := Stored []))
      | Corrupt \<Rightarrow> ([], fs)
      | Stored products \<Rightarrow> (products, fs))"

definition platforms :: "string list" where
  "platforms = [''myntra'', ''amazon'', ''flipkart'', ''unknown'']"

fun loadEach :: "string list \<Rightarrow> Product list \<Rightarrow> files \<Rightarrow> Product list \<times> files" where
  "loadEach [] allProducts fs = (allProducts, fs)"
| "loadEach (platform # rest) allProducts fs =
     (let (products, fs') = loadProducts platform fs
      in loadEach rest (allProducts @ products) fs')"

definition getAllProducts :: "files \<Rightarrow> Product list \<times> files" where
  "getAllProducts fs = loadEach platforms [] fs"

text \<open>
  \<^verbatim>\<open>productsByPlatform\<close> is a plain object. Reading a key that the object does not
  own finds the properties of \<^verbatim>\<open>Object.prototype\<close>, so for the two lower-case names
  among them no array is created and \<^verbatim>\<open>push\<close> throws a \<^verbatim>\<open>TypeError\<close>.
\<close>

definition platformKey :: "Product \<Rightarrow> string" where
  "platformKey product =
     toLowerCase (case ecommercePlatform product of
                    None \<Rightarrow> ''unknown''
                  | Some s \<Rightarrow> if s = [] then ''unknown'' else s)"

definition inherited :: "string \<Rightarrow> bool" where
  "inherited k = (k = ''constructor'' \<or> k = ''__proto__'')"

fun groupProducts ::
  "Product list \<Rightarrow> (string, Product list) jsmap \<Rightarrow> error + (string, Product list) jsmap" where
  "groupProducts [] productsByPlatform = Inr productsByPlatform"
| "groupProducts (product # rest) productsByPlatform =
     (let platform = platformKey product
      in (case map_get productsByPlatform platform of
            Some ps \<Rightarrow> groupProducts rest (map_set productsByPlatform platform (ps @ [product]))
          | None \<Rightarrow>
              if inherited platform then Inl TypeError
              else groupProducts rest (map_set productsByPlatform platform [product])))"

text \<open>
  \<^verbatim>\<open>Object.entries\<close> lists the keys that are array indices first, in ascending
  numeric order, and then the other keys in insertion order.
\<close>

definition digitValue :: "char \<Rightarrow> nat option" where
  "digitValue c = map_of (zip ''0123456789'' [0, 1, 2, 3, 4, 5, 6, 7, 8, 9]) c"

fun decimalValue :: "string \<Rightarrow> nat \<Rightarrow> nat option" where
  "decimalValue [] n = Some n"
| "decimalValue (c # cs) n =
     (case digitValue c of None \<Rightarrow> None | Some d \<Rightarrow> decimalValue cs (10 * n + d))"

definition arrayIndex :: "string \<Rightarrow> nat option" where
  "arrayIndex k =
     (if k = [] \<or> (length k > 1 \<and> hd k = CHR ''0'') then None
      else (case decimalValue k 0 of
              None \<Rightarrow> None
            | Some n \<Rightarrow> if n < 2 ^ 32 - 1 then Some n else None))"

definition objectEntries :: "(string, 'v) jsmap \<Rightarrow> (string \<times> 'v) list" where
  "objectEntries obj =
     sort_key (\<lambda>e. case arrayIndex (fst e) of None \<Rightarrow> 0 | Some n \<Rightarrow> n)
       (filter (\<lambda>e. arrayIndex (fst e) \<noteq> None) obj)
     @ filter (\<lambda>e. arrayIndex (fst e) = None) obj"

definition BATCH_SIZE :: nat where
  "BATCH_SIZE = 5"

text \<open>
  The loop over the settled results of a batch: the updated list, the failure count
  and the notification count.
\<close>

definition newNotification :: "Product \<Rightarrow> Product \<Rightarrow> bool" where
  "newNotification updatedProduct originalProduct =
     (truthyStr (lastNotifiedDate updatedProduct)
      \<and> (\<not> truthyStr (lastNotifiedDate originalProduct)
          \<or> lastNotifiedDate originalProduct \<noteq> lastNotifiedDate updatedProduct))"

fun handleResults ::
  "((error + Product) \<times> Product) list \<Rightarrow> Product list \<Rightarrow> nat \<Rightarrow> nat
     \<Rightarrow> Product list \<times> nat \<times> nat" where
  "handleResults [] updatedProducts failures notified = (updatedProducts, failures, notified)"
| "handleResults ((result, originalProduct) # rest) updatedProducts failures notified =
     (case result of
        Inr updatedProduct \<Rightarrow>
          handleResults rest (updatedProducts @ [updatedProduct]) failures
            (if newNotification updatedProduct originalProduct then notified + 1 else notified)
      | Inl reason \<Rightarrow>
          handleResults rest (updatedProducts @ [originalProduct]) (failures + 1) notified)"

definition fulfilled :: "(error + Product) \<Rightarrow> bool" where
  "fulfilled r = (case r of Inr v \<Rightarrow> True | Inl e \<Rightarrow> False)"

text \<open>
  One batch: every product of the slice is processed (the calls run concurrently and
  share nothing but the stop flag they read; the messages are listed in batch order),
  the results are handled in batch order. The argument \<^verbatim>\<open>isFirstProduct\<close> is only
  passed on to the scrape API, whose response is part of the environment.
\<close>

definition runBatch ::
  "scan_env \<Rightarrow> string \<Rightarrow> nat \<Rightarrow> bool \<Rightarrow> Product list
     \<Rightarrow> ((error + Product) \<times> telegram_message list) list" where
  "runBatch env platform i stopNow batch =
     map (\<lambda>(j, product). processSingleProduct (productEnv env platform (i + j)) stopNow product)
       (zip [0 ..< length batch] batch)"

text \<open>
  The body of the batch loop for the batch that starts at index \<open>i\<close>: the slice, the
  concurrent calls, the loop over the results, the success count, and the pause
  before the next batch.
\<close>

definition batchStep ::
  "scan_env \<Rightarrow> string \<Rightarrow> Product list \<Rightarrow> nat \<Rightarrow> Product list \<Rightarrow> counters \<Rightarrow> world
     \<Rightarrow> Product list \<times> counters \<times> world" where
  "batchStep env platform platformProducts i updatedProducts c w =
     (let batch = take BATCH_SIZE (drop i platformProducts);
          outcomes = runBatch env platform i (stopRequested w) batch;
          results = map fst outcomes;
          w1 = stopRoute (stopDuringBatch env platform i)
                 (w\<lparr>outbox := outbox w @ concat (map snd outcomes)\<rparr>);
          (updatedProducts', failures, notified) =
             handleResults (zip results batch) updatedProducts
               (failureCount c) (notificationCount c);
          c' = \<lparr>successCount = successCount c + length (filter fulfilled results),
                failureCount = failures, notificationCount = notified\<rparr>;
          w2 = (if i + BATCH_SIZE < length platformProducts
                then stopRoute (stopDuringThrottle env platform i) w1
                else w1)
      in (updatedProducts', c', w2))"

function batchLoop ::
  "scan_env \<Rightarrow> string \<Rightarrow> Product list \<Rightarrow> nat \<Rightarrow> Product list \<Rightarrow> counters \<Rightarrow> world
     \<Rightarrow> Product list \<times> counters \<times> world" where
  "batchLoop env platform platformProducts i updatedProducts c w =
     (if \<not> i < length platformProducts then (updatedProducts, c, w)
      else if stopRequested w then (updatedProducts, c, w)
      else (case batchStep env platform platformProducts i updatedProducts c w of
              (updatedProducts', c', w') \<Rightarrow>
                batchLoop env platform platformProducts (i + BATCH_SIZE) updatedProducts' c' w'))"
  by pat_completeness auto
termination
  by (relation "measure (\<lambda>(env, platform, platformProducts, i, updatedProducts, c, w).
                  length platformProducts - i)")
     (auto simp: BATCH_SIZE_def)

text \<open>
  The loop over the platforms. An error is a throw of \<^verbatim>\<open>saveProducts\<close>, which leaves
  the loop for the handler's \<^verbatim>\<open>catch\<close>; the value \<^verbatim>\<open>saveProducts\<close> resolves to is
  not read.
\<close>

fun platformLoop ::
  "scan_env \<Rightarrow> (string \<times> Product list) list \<Rightarrow> counters \<Rightarrow> world
     \<Rightarrow> error option \<times> counters \<times> world" where
  "platformLoop env [] c w = (None, c, w)"
| "platformLoop env ((platform, platformProducts) # rest) c w =
     (if stopRequested w then (None, c, w)
      else
        (let (updatedProducts, c1, w1) = batchLoop env platform platformProducts 0 [] c w
         in if updatedProducts \<noteq> [] \<and> \<not> stopRequested w1
            then (case saveProducts False (saveThrows env platform) platform
                         updatedProducts (files w1) of
                    (Inl e, fs) \<Rightarrow> (Some e, c1, w1\<lparr>files := fs\<rparr>)
                  | (Inr saved, fs) \<Rightarrow> platformLoop env rest c1 (w1\<lparr>files := fs\<rparr>))
            else platformLoop env rest c1 w1))"

section \<open>Retention pass\<close>

definition DAYS_THRESHOLD :: int where
  "DAYS_THRESHOLD = 60"

definition daysSince :: "scan_env \<Rightarrow> int \<Rightarrow> int" where
  "daysSince env t = (nowMs env - t) div (1000 * 60 * 60 * 24)"

text \<open>
  The filter of \<^verbatim>\<open>cleanupOldProducts\<close>. A date that does not parse gives
  \<^verbatim>\<open>NaN\<close> days, and every comparison with \<^verbatim>\<open>NaN\<close> is false.
\<close>

definition activeProduct :: "scan_env \<Rightarrow> Product \<Rightarrow> bool" where
  "activeProduct env product =
     (case (if truthyStr (lastChecked product) then lastChecked product else None) of
        None \<Rightarrow>
          (case (if truthyStr (addedAt product) then addedAt product else None) of
             None \<Rightarrow> True
           | Some added \<Rightarrow>
               (case parseTime env added of
                  None \<Rightarrow> False
                | Some t \<Rightarrow> daysSince env t \<le> 30))
      | Some checked \<Rightarrow>
          (case parseTime env checked of
             None \<Rightarrow> isBelow product = Some True
           | Some t \<Rightarrow> daysSince env t \<le> DAYS_THRESHOLD \<or> isBelow product = Some True))"

fun cleanupEach ::
  "scan_env \<Rightarrow> string list \<Rightarrow> nat \<Rightarrow> files \<Rightarrow> error option \<times> nat \<times> files" where
  "cleanupEach env [] removedCount fs = (None, removedCount, fs)"
| "cleanupEach env (platform # rest) removedCount fs =
     (let (products, fs1) = loadProducts platform fs;
          activeProducts = filter (activeProduct env) products
      in if length activeProducts < length products
         then (case saveProducts False (cleanupThrows env platform) platform
                      activeProducts fs1 of
                 (Inl e, fs2) \<Rightarrow> (Some e, removedCount, fs2)
               | (Inr saved, fs2) \<Rightarrow>
                   cleanupEach env rest
                     (removedCount + (length products - length activeProducts)) fs2)
         else cleanupEach env rest removedCount fs1)"

definition cleanupOldProducts :: "scan_env \<Rightarrow> files \<Rightarrow> error option \<times> nat \<times> files" where
  "cleanupOldProducts env fs = cleanupEach env platforms 0 fs"

section \<open>The scan handler\<close>

datatype response =
  AlreadyInProgress
| NoProductsToScan bool
| ScanDone nat nat nat nat bool
| ScanError error

definition COOLDOWN :: nat where
  "COOLDOWN = 5000"

text \<open>The end of the \<^verbatim>\<open>try\<close> block: both flags are reset, then the follow-up timer.\<close>

definition finishScan :: "bool \<Rightarrow> counters \<Rightarrow> nat \<Rightarrow> world \<Rightarrow> response \<times> world" where
  "finishScan isContinuousScan c removedCount w =
     (let w1 = w\<lparr>scanInProgress := False, stopRequested := False\<rparr>;
          w2 = (if isContinuousScan then w1\<lparr>timers := timers w1 @ [COOLDOWN]\<rparr> else w1)
      in (ScanDone (successCount c) (failureCount c) (notificationCount c) removedCount
            isContinuousScan, w2))"

text \<open>
  After the platform loop: the log entry, the summary notification, the retention
  pass when the scan was not stopped, and the end of the \<^verbatim>\<open>try\<close> block. An
  error is an exception that reaches the handler's \<^verbatim>\<open>catch\<close>.
\<close>

definition afterLoop ::
  "scan_env \<Rightarrow> bool \<Rightarrow> Product list \<Rightarrow> counters \<Rightarrow> world \<Rightarrow> (error + response) \<times> world" where
  "afterLoop env isContinuousScan products c w1 =
     (let status = (if stopRequested w1 then Stopped else Completed);
          w2 = w1\<lparr>logFile := logScanActivity (logFile w1)
                   (ScanEntry status (length products) (successCount c)
                      (failureCount c) (notificationCount c) isContinuousScan
                      (stopRequested w1))\<rparr>;
          w3 = (if notificationCount c > 0
                then stopRoute (stopDuringSummary env)
                       (w2\<lparr>outbox := outbox w2 @
                             [ScanSummary (notificationCount c) (length products)
                                (stopRequested w2)]\<rparr>)
                else w2)
      in if \<not> stopRequested w3
         then (case cleanupOldProducts env (files w3) of
                 (Some e, removedCount, fs) \<Rightarrow> (Inl e, w3\<lparr>files := fs\<rparr>)
               | (None, removedCount, fs) \<Rightarrow>
                   (case finishScan isContinuousScan c removedCount (w3\<lparr>files := fs\<rparr>) of
                      (r, w4) \<Rightarrow> (Inr r, w4)))
         else (case finishScan isContinuousScan c 0 w3 of
                 (r, w4) \<Rightarrow> (Inr r, w4)))"

text \<open>
  The \<^verbatim>\<open>try\<close> block for a non-empty product list: the grouping, the platform
  loop, and what follows it.
\<close>

definition scanProducts ::
  "scan_env \<Rightarrow> bool \<Rightarrow> Product list \<Rightarrow> world \<Rightarrow> (error + response) \<times> world" where
  "scanProducts env isContinuousScan products w =
     (case groupProducts products [] of
        Inl e \<Rightarrow> (Inl e, w)
      | Inr productsByPlatform \<Rightarrow>
          (case platformLoop env (objectEntries productsByPlatform)
                  \<lparr>successCount = 0, failureCount = 0, notificationCount = 0\<rparr> w of
             (Some e, c, w1) \<Rightarrow> (Inl e, w1)
           | (None, c, w1) \<Rightarrow> afterLoop env isContinuousScan products c w1))"

text \<open>The handler \<^verbatim>\<open>GET\<close> of the background scan route.\<close>

definition GET :: "scan_env \<Rightarrow> world \<Rightarrow> response \<times> world" where
  "GET env w =
     (if scanInProgress w then (AlreadyInProgress, w)
      else
        (let (isContinuousScan, sf) = getScannerState (stateFile w);
             w0 = w\<lparr>stateFile := sf, scanInProgress := True\<rparr>;
             (products, fs) = getAllProducts (files w0);
             w1 = w0\<lparr>files := fs\<rparr>
         in if products = []
            then (NoProductsToScan isContinuousScan,
                  w1\<lparr>logFile := logScanActivity (logFile w1) (NoProductsEntry isContinuousScan),
                     scanInProgress := False,
                     timers := (if isContinuousScan then timers w1 @ [COOLDOWN]
                                else timers w1)\<rparr>)
            else (case scanProducts env isContinuousScan products w1 of
                    (Inr r, w2) \<Rightarrow> (r, w2)
                  | (Inl e, w2) \<Rightarrow>
                      (ScanError e,
                       w2\<lparr>logFile := logScanActivity (logFile w2) (ErrorEntry e isContinuousScan),
                          scanInProgress := False\<rparr>))))"

text \<open>
  The callback of the follow-up timer: it reads the scanner state again and requests
  the scan route when continuous scanning is enabled at that moment.
\<close>

definition followUp :: "world \<Rightarrow> bool \<times> world" where
  "followUp w =
     (let (isScanning, sf) = getScannerState (stateFile w)
      in (isScanning, w\<lparr>stateFile := sf\<rparr>))"

section \<open>Sample data\<close>

text \<open>Concrete products, clocks and scrape results, used to instantiate the theorems.\<close>

definition shirt :: Product where
  "shirt = \<lparr>pid = ''p1'', url = ''https://www.myntra.com/shirt'', desiredPrice = 1000,
     currentPrice = None, mrp = None, name = None, brand = None, imageUrl = None,
     isBelow = None, lastChecked = None, ecommercePlatform = Some ''Myntra'',
     lastNotifiedPrice = None, lastNotifiedDate = None,
     addedAt = Some ''2024-04-30T08:00:00.000Z'', offers = None\<rparr>"

definition scarf :: Product where
  "scarf = shirt\<lparr>pid := ''p2'', url := ''https://www.myntra.com/scarf''\<rparr>"

definition kettle :: Product where
  "kettle = shirt\<lparr>pid := ''p3'', url := ''https://www.amazon.in/kettle'',
                     ecommercePlatform := Some ''Amazon''\<rparr>"

text \<open>A watch below its target, notified at price 100 on the morning of the first of May.\<close>

definition watch :: Product where
  "watch = \<lparr>pid = ''p4'', url = ''https://www.flipkart.com/watch'', desiredPrice = 1000,
     currentPrice = Some 100, mrp = None, name = Some ''Watch'', brand = None,
     imageUrl = None, isBelow = Some True, lastChecked = Some ''2024-05-01T08:00:00.000Z'',
     ecommercePlatform = Some ''Flipkart'', lastNotifiedPrice = Some 100,
     lastNotifiedDate = Some ''2024-05-01T08:00:00.000Z'',
     addedAt = Some ''2024-04-30T08:00:00.000Z'', offers = None\<rparr>"

definition parseMay :: "string \<Rightarrow> jsdate option" where
  "parseMay s =
     (if s = ''2024-05-01T08:00:00.000Z''
      then Some \<lparr>getFullYear = 2024, getMonth = 4, getDate = 1\<rparr>
      else if s = ''2024-04-30T08:00:00.000Z''
      then Some \<lparr>getFullYear = 2024, getMonth = 3, getDate = 30\<rparr>
      else None)"

text \<open>Noon and evening of the first of May; in the evening the notifier is down.\<close>

definition noon :: notify_env where
  "noon = \<lparr>parseLocalDate = parseMay,
            todayLocal = \<lparr>getFullYear = 2024, getMonth = 4, getDate = 1\<rparr>,
            nowISO = ''2024-05-01T12:00:00.000Z'', telegramOk = True\<rparr>"

definition evening :: notify_env where
  "evening = noon\<lparr>nowISO := ''2024-05-01T20:00:00.000Z'', telegramOk := False\<rparr>"

definition offer950 :: ScrapedProductData where
  "offer950 = \<lparr>productName = ''Shirt'', scrapedBrand = Some ''Acme'', price = Some 950,
                scrapedMrp = Some 1999, scrapedPlatform = ''Myntra''\<rparr>"

text \<open>A site that answers every attempt with an HTTP error, and one that answers the
  second attempt.\<close>

definition blocked :: product_env where
  "blocked = \<lparr>parseLocalDate = parseMay,
               todayLocal = \<lparr>getFullYear = 2024, getMonth = 4, getDate = 1\<rparr>,
               nowISO = ''2024-05-01T12:00:00.000Z'', telegramOk = True,
               unsupported = False, responses = (\<lambda>k. HttpNotOk),
               checkedAt = ''2024-05-01T12:00:00.000Z'', stopLater = (\<lambda>k. False)\<rparr>"

definition secondTry :: product_env where
  "secondTry = blocked\<lparr>responses :=
                 (\<lambda>k. if k = 0 then FetchThrows else Body True (Some offer950))\<rparr>"

definition kettle950 :: ScrapedProductData where
  "kettle950 = \<lparr>productName = ''Kettle'', scrapedBrand = None, price = Some 950,
                 scrapedMrp = None, scrapedPlatform = ''Amazon''\<rparr>"

text \<open>A site that answers the first attempt with the given data.\<close>

definition answers :: "ScrapedProductData \<Rightarrow> product_env" where
  "answers d = blocked\<lparr>responses := (\<lambda>k. Body True (Some d))\<rparr>"

text \<open>The record built from a scrape at noon, and the record after its alert went out.\<close>

definition seen :: "Product \<Rightarrow> ScrapedProductData \<Rightarrow> Product" where
  "seen product d = applyScrape ''2024-05-01T12:00:00.000Z'' product d"

definition alerted :: "Product \<Rightarrow> Product" where
  "alerted product = product\<lparr>lastNotifiedPrice := currentPrice product,
                              lastNotifiedDate := Some ''2024-05-01T12:00:00.000Z''\<rparr>"

text \<open>
  A scan pass in which every site answers and the stop route is called while the
  batch of the Amazon partition is awaited; and one in which nobody calls the stop
  route and every save throws.
\<close>

definition stopInAmazon :: scan_env where
  "stopInAmazon =
     \<lparr>productEnv = (\<lambda>platform i. if platform = ''amazon'' then answers kettle950
                                  else answers offer950),
      stopDuringBatch = (\<lambda>platform i. platform = ''amazon''),
      stopDuringThrottle = (\<lambda>platform i. False),
      stopDuringSummary = False,
      saveThrows = (\<lambda>platform. False),
      cleanupThrows = (\<lambda>platform. False),
      nowMs = 1714564800000,
      parseTime = (\<lambda>s. None)\<rparr>"

definition diskFull :: scan_env where
  "diskFull = stopInAmazon\<lparr>stopDuringBatch := (\<lambda>platform i. False),
                            saveThrows := (\<lambda>platform. True)\<rparr>"

text \<open>
  The module after start-up, with continuous scanning enabled, the shirt in the
  Myntra partition and the kettle in the Amazon partition; the partitions after
  \<^verbatim>\<open>getAllProducts\<close>; the world when the platform loop starts; and the world after
  the Myntra partition was scanned and saved.
\<close>

definition idle :: world where
  "idle = \<lparr>scanInProgress = False, stopRequested = False,
            files = (\<lambda>k. if k = ''myntra'' then Stored [shirt]
                          else if k = ''amazon'' then Stored [kettle] else Missing),
            stateFile = StateFile True, logFile = [], timers = [], outbox = []\<rparr>"

definition loaded :: files where
  "loaded = (files idle)(''flipkart'' := Stored [], ''unknown'' := Stored [])"

definition started :: world where
  "started = idle\<lparr>stateFile := StateFile True, scanInProgress := True, files := loaded\<rparr>"

definition zero :: counters where
  "zero = \<lparr>successCount = 0, failureCount = 0, notificationCount = 0\<rparr>"

definition myntraSaved :: world where
  "myntraSaved = started\<lparr>outbox := [PriceAlert (seen shirt offer950)],
                          files := loaded(''myntra'' := Stored [alerted (seen shirt offer950)])\<rparr>"

section \<open>Between two runs of the handler\<close>

text \<open>
  What the batch loop leaves as it is: everything but the stop flag and the messages.
\<close>

definition sameButStop :: "world \<Rightarrow> world \<Rightarrow> bool" where
  "sameButStop w w' =
     (files w' = files w \<and> scanInProgress w' = scanInProgress w \<and> logFile w' = logFile w
      \<and> timers w' = timers w \<and> stateFile w' = stateFile w)"

text \<open>
  The states of the module between two runs of the scan handler: the state at
  start-up (both flags are initialised to \<^verbatim>\<open>false\<close>), and from there any sequence of
  scan passes, calls of the stop route, and writes of the other routes to the files.
\<close>

inductive reachable :: "world \<Rightarrow> bool" where
  startup: "\<not> scanInProgress w \<Longrightarrow> \<not> stopRequested w \<Longrightarrow> reachable w"
| scanned: "reachable w \<Longrightarrow> reachable (snd (GET env w))"
| stopCalled: "reachable w \<Longrightarrow> reachable (requestScannerStop w)"
| edited: "reachable w \<Longrightarrow> reachable (w\<lparr>files := fs, stateFile := sf, logFile := lg\<rparr>)"

section \<open>Facts about the store\<close>

declare attemptLoop.simps [simp del]
declare batchLoop.simps [simp del]

lemma lower_Myntra: "toLowerCase ''Myntra'' = ''myntra''"
  by (simp add: toLowerCase_def lowerChar_def)

lemma lower_Amazon: "toLowerCase ''Amazon'' = ''amazon''"
  by (simp add: toLowerCase_def lowerChar_def)

lemma map_set_keys: "fst ` set (map_set m k v) = insert k (fst ` set m)"
  by (induction m k v rule: map_set.induct) auto

lemma new_Map_keys: "fst ` set (new_Map m es) = fst ` set m \<union> fst ` set es"
  by (induction m es rule: new_Map.induct) (auto simp: map_set_keys)

lemma map_set_vals: "e \<in> set (map_set m k v) \<Longrightarrow> e \<in> set m \<or> e = (k, v)"
  by (induction m k v rule: map_set.induct) (auto split: if_splits)

lemma new_Map_vals: "e \<in> set (new_Map m es) \<Longrightarrow> e \<in> set m \<or> e \<in> set es"
  by (induction m es rule: new_Map.induct) (auto dest: map_set_vals)

lemma map_set_fresh: "k \<notin> fst ` set m \<Longrightarrow> map_set m k v = m @ [(k, v)]"
  by (induction m k v rule: map_set.induct) auto

text \<open>With distinct keys the map lists its entries as they were given.\<close>

lemma new_Map_distinct: "distinct (map fst (m @ es)) \<Longrightarrow> new_Map m es = m @ es"
proof (induction m es rule: new_Map.induct)
  case (1 m)
  then show ?case by simp
next
  case (2 m k v es)
  then have "k \<notin> fst ` set m" by auto
  then have "map_set m k v = m @ [(k, v)]" by (rule map_set_fresh)
  with 2 show ?case by simp
qed

lemma map_has_delete: "map_has (map_delete pm j) i \<Longrightarrow> map_has pm i"
  by (auto simp: map_has_def map_delete_def)

lemma mergeCurrent_mono: "x \<in> set merged \<Longrightarrow> x \<in> set (fst (mergeCurrent cm pm merged))"
  by (induction cm pm merged rule: mergeCurrent.induct) (auto split: option.splits)

text \<open>A stored record whose id the scan does not have is pushed by the first loop.\<close>

lemma mergeCurrent_keeps:
  "(i, c) \<in> set cm \<Longrightarrow> \<not> map_has pm i \<Longrightarrow> c \<in> set (fst (mergeCurrent cm pm merged))"
proof (induction cm pm merged rule: mergeCurrent.induct)
  case (1 productMap merged)
  then show ?case by simp
next
  case (2 j currentProduct rest productMap merged)
  show ?case
  proof (cases "(i, c) = (j, currentProduct)")
    case True
    with 2 show ?thesis by (simp add: mergeCurrent_mono)
  next
    case False
    with 2 show ?thesis by (auto split: option.splits dest: map_has_delete)
  qed
qed

text \<open>What the first loop leaves in \<^verbatim>\<open>productMap\<close>: the ids the file does not have.\<close>

lemma mergeCurrent_remaining:
  "snd (mergeCurrent cm pm merged) = filter (\<lambda>e. fst e \<notin> fst ` set cm) pm"
proof (induction cm pm merged rule: mergeCurrent.induct)
  case (1 productMap merged)
  then show ?case by simp
next
  case (2 i currentProduct rest productMap merged)
  show ?case
  proof (cases "map_has productMap i")
    case True
    with 2 show ?thesis
      by (auto simp: map_delete_def split: option.splits intro: filter_cong)
  next
    case False
    then have "filter (\<lambda>e. fst e \<notin> fst ` set rest) productMap
             = filter (\<lambda>e. fst e \<notin> fst ` set ((i, currentProduct) # rest)) productMap"
      by (intro filter_cong) (auto simp: map_has_def)
    with 2 False show ?thesis by simp
  qed
qed

lemma set_mergedProducts:
  "set (mergedProducts cur ps) =
     set (fst (mergeCurrent (new_Map [] (map (\<lambda>p. (pid p, p)) cur))
                 (new_Map [] (map (\<lambda>p. (pid p, p)) ps)) []))
     \<union> snd ` set (snd (mergeCurrent (new_Map [] (map (\<lambda>p. (pid p, p)) cur))
                 (new_Map [] (map (\<lambda>p. (pid p, p)) ps)) []))"
  by (simp add: mergedProducts_def Let_def split_beta)

lemma current_entry:
  assumes "p \<in> set cur"
  shows "\<exists>c. (pid p, c) \<in> set (new_Map [] (map (\<lambda>p. (pid p, p)) cur))
             \<and> c \<in> set cur \<and> pid c = pid p"
proof -
  let ?cm = "new_Map [] (map (\<lambda>p. (pid p, p)) cur)"
  from assms have "pid p \<in> fst ` set ?cm"
    by (force simp: new_Map_keys)
  then obtain c where c: "(pid p, c) \<in> set ?cm" by force
  from new_Map_vals [OF this] have "(pid p, c) \<in> set (map (\<lambda>p. (pid p, p)) cur)" by simp
  then have "c \<in> set cur \<and> pid c = pid p" by auto
  with c show ?thesis by blast
qed

lemma merged_retains:
  assumes "p \<in> set cur" and "pid p \<notin> pid ` set ps"
  shows "(\<exists>q \<in> set (mergedProducts cur ps). pid q = pid p \<and> q \<in> set cur)
         \<and> (distinct (map pid cur) \<longrightarrow> p \<in> set (mergedProducts cur ps))"
proof -
  let ?cm = "new_Map [] (map (\<lambda>p. (pid p, p)) cur)"
  let ?pm = "new_Map [] (map (\<lambda>p. (pid p, p)) ps)"
  from current_entry [OF assms(1)] obtain c
    where c: "(pid p, c) \<in> set ?cm" "c \<in> set cur" "pid c = pid p" by blast
  from assms(2) have "\<not> map_has ?pm (pid p)"
    by (force simp: map_has_def new_Map_keys)
  with c(1) have "c \<in> set (fst (mergeCurrent ?cm ?pm []))"
    by (rule mergeCurrent_keeps)
  then have in_merged: "c \<in> set (mergedProducts cur ps)"
    by (simp add: set_mergedProducts)
  have "c = p" if "distinct (map pid cur)"
    using that c(2,3) assms(1) by (auto simp: distinct_map dest: inj_onD)
  with in_merged c show ?thesis by blast
qed

text \<open>The list a successful save writes.\<close>

lemma saved_list:
  assumes "fst (saveProducts busy fails platform products fs) = Inr True"
  shows "snd (saveProducts busy fails platform products fs) (toLowerCase platform) =
           Stored (mergedProducts
                     (case fs (toLowerCase platform) of Stored cur \<Rightarrow> cur | _ \<Rightarrow> []) products)"
  using assms
  by (auto simp: saveProducts_def saveFile_def split_beta split: if_splits pfile.splits)

text \<open>
  Claim C1 says that a save never brings back a product that is in the scan's result
  set but no longer in the partition file. The code does the opposite: the second loop
  of \<^verbatim>\<open>saveProducts\<close> appends every scanned product whose id the file does not
  have, so a product deleted while the scan ran is written back.
\<close>

theorem save_reintroduces_deleted:
  assumes "fst (saveProducts busy fails platform products fs) = Inr True"
    and "fs (toLowerCase platform) = Stored currentProducts"
    and "x \<in> set products"
    and "distinct (map pid products)"
    and "pid x \<notin> pid ` set currentProducts"
  shows "\<exists>merged. snd (saveProducts busy fails platform products fs) (toLowerCase platform)
                     = Stored merged \<and> x \<in> set merged"
proof -
  let ?cm = "new_Map [] (map (\<lambda>p. (pid p, p)) currentProducts)"
  let ?es = "map (\<lambda>p. (pid p, p)) products"
  from assms(4) have "distinct (map fst ([] @ ?es))" by (simp add: comp_def)
  then have pm: "new_Map [] ?es = ?es" using new_Map_distinct [of "[]" ?es] by simp
  from assms(5) have "pid x \<notin> fst ` set ?cm" by (simp add: new_Map_keys image_comp comp_def)
  with assms(3) have "(pid x, x) \<in> set (filter (\<lambda>e. fst e \<notin> fst ` set ?cm) ?es)"
    by auto
  then have "(pid x, x) \<in> set (snd (mergeCurrent ?cm (new_Map [] ?es) []))"
    by (simp only: mergeCurrent_remaining pm)
  then have "x \<in> set (mergedProducts currentProducts products)"
    unfolding set_mergedProducts by force
  with saved_list [OF assms(1)] assms(2) show ?thesis by simp
qed

text \<open>
  The failing input: the scan holds the shirt and the scarf, the shirt is deleted
  while it runs (the file holds only the scarf), and the save writes the shirt back.
\<close>

theorem save_reintroduces_deleted_witness:
  "fst (saveProducts False False ''Myntra'' [shirt, scarf] (\<lambda>k. Stored [scarf])) = Inr True
   \<and> pid shirt \<noteq> pid scarf
   \<and> (\<exists>merged. snd (saveProducts False False ''Myntra'' [shirt, scarf] (\<lambda>k. Stored [scarf]))
                    ''myntra'' = Stored merged \<and> shirt \<in> set merged)"
proof -
  have "fst (saveProducts False False ''Myntra'' [shirt, scarf] (\<lambda>k. Stored [scarf])) = Inr True"
    by (simp add: saveProducts_def saveFile_def split_beta)
  moreover have "pid shirt \<noteq> pid scarf" by (simp add: shirt_def scarf_def)
  ultimately show ?thesis
    using save_reintroduces_deleted [of False False "''Myntra''" "[shirt, scarf]"
        "\<lambda>k. Stored [scarf]" "[scarf]" shirt]
    by (simp add: lower_Myntra)
qed

text \<open>
  Claim C8: a product that is in the partition file and not in the scan's result set
  (it was added while the scan ran) is in the list a save writes. A product is its id:
  the id stays in the written list in every case, and the stored record itself stays
  when the ids in the file are distinct (of two stored records with one id the
  \<^verbatim>\<open>Map\<close> keeps one).
\<close>

theorem save_retains_added:
  assumes "fst (saveProducts busy fails platform products fs) = Inr True"
    and "fs (toLowerCase platform) = Stored currentProducts"
    and "p \<in> set currentProducts"
    and "pid p \<notin> pid ` set products"
  shows "\<exists>merged. snd (saveProducts busy fails platform products fs) (toLowerCase platform)
                     = Stored merged
           \<and> (\<exists>q \<in> set merged. pid q = pid p \<and> q \<in> set currentProducts)
           \<and> (distinct (map pid currentProducts) \<longrightarrow> p \<in> set merged)"
  using saved_list [OF assms(1)] assms(2) merged_retains [OF assms(3,4)] by simp

theorem save_retains_added_witness:
  "fst (saveProducts False False ''Myntra'' [shirt] (\<lambda>k. Stored [shirt, scarf])) = Inr True
   \<and> pid scarf \<noteq> pid shirt
   \<and> (\<exists>merged. snd (saveProducts False False ''Myntra'' [shirt] (\<lambda>k. Stored [shirt, scarf]))
                    ''myntra'' = Stored merged \<and> scarf \<in> set merged)"
proof -
  have "fst (saveProducts False False ''Myntra'' [shirt] (\<lambda>k. Stored [shirt, scarf])) = Inr True"
    by (simp add: saveProducts_def saveFile_def split_beta)
  moreover have "pid scarf \<noteq> pid shirt" by (simp add: shirt_def scarf_def)
  ultimately show ?thesis
    using save_retains_added [of False False "''Myntra''" "[shirt]"
        "\<lambda>k. Stored [shirt, scarf]" "[shirt, scarf]" scarf]
    by (auto simp: lower_Myntra)
qed

section \<open>Facts about the notification engine\<close>

lemma today_morning: "isToday noon (Some ''2024-05-01T08:00:00.000Z'')"
  by (simp add: isToday_def truthyStr_def noon_def parseMay_def)

lemma today_morning_evening: "isToday evening (Some ''2024-05-01T08:00:00.000Z'')"
  by (simp add: isToday_def truthyStr_def evening_def noon_def parseMay_def)

text \<open>The engine writes the two notification fields and nothing else.\<close>

lemma processNotifications_isBelow:
  "isBelow (fst (processNotifications env product previousProduct)) = isBelow product"
  by (simp add: processNotifications_def Let_def keepNotified_def markNotified_def
        split: option.splits)

lemma processNotifications_currentPrice:
  "currentPrice (fst (processNotifications env product previousProduct)) = currentPrice product"
  by (simp add: processNotifications_def Let_def keepNotified_def markNotified_def
        split: option.splits)

lemma processNotifications_desiredPrice:
  "desiredPrice (fst (processNotifications env product previousProduct)) = desiredPrice product"
  by (simp add: processNotifications_def Let_def keepNotified_def markNotified_def
        split: option.splits)

lemma processNotifications_name:
  "name (fst (processNotifications env product previousProduct)) = name product"
  by (simp add: processNotifications_def Let_def keepNotified_def markNotified_def
        split: option.splits)

lemma missingRequiredFields_output:
  "missingRequiredFields (fst (processNotifications env product previousProduct))
     = missingRequiredFields product"
  by (simp add: missingRequiredFields_def processNotifications_name
        processNotifications_currentPrice processNotifications_desiredPrice)

text \<open>The first three rules of the engine, in their order.\<close>

lemma engine_skips:
  "missingRequiredFields product \<Longrightarrow>
     processNotifications env product previousProduct = (product, [])"
  by (simp add: processNotifications_def)

lemma engine_clears:
  "\<not> missingRequiredFields product \<Longrightarrow> \<not> truthyBool (isBelow product) \<Longrightarrow>
     processNotifications env product previousProduct =
       (product\<lparr>lastNotifiedPrice := None, lastNotifiedDate := None\<rparr>, [])"
  by (simp add: processNotifications_def)

lemma engine_suppresses:
  "\<not> missingRequiredFields product \<Longrightarrow> truthyBool (isBelow product) \<Longrightarrow>
   currentPrice previousProduct = currentPrice product \<Longrightarrow>
   isToday env (lastNotifiedDate product) \<Longrightarrow>
     processNotifications env product previousProduct =
       (product\<lparr>lastNotifiedPrice := lastNotifiedPrice previousProduct,
                lastNotifiedDate := lastNotifiedDate previousProduct\<rparr>, [])"
  by (auto simp: processNotifications_def Let_def isToday_def split: if_splits)

text \<open>
  Whatever the first call did (it may have sent an alert): when the record it returned
  carries today's date, a second call on that record changes nothing and sends nothing.
\<close>

lemma engine_second_call_noop:
  assumes "isToday env' (lastNotifiedDate (fst (processNotifications env product previousProduct)))"
  shows "processNotifications env' (fst (processNotifications env product previousProduct))
           (fst (processNotifications env product previousProduct))
         = (fst (processNotifications env product previousProduct), [])"
proof -
  let ?o = "fst (processNotifications env product previousProduct)"
  consider "missingRequiredFields product"
    | "\<not> missingRequiredFields product" "\<not> truthyBool (isBelow product)"
    | "\<not> missingRequiredFields product" "truthyBool (isBelow product)"
    by blast
  then show ?thesis
  proof cases
    case 1
    then have "missingRequiredFields ?o" by (simp add: missingRequiredFields_output)
    then show ?thesis by (rule engine_skips)
  next
    case 2
    then have "?o = product\<lparr>lastNotifiedPrice := None, lastNotifiedDate := None\<rparr>"
      by (simp add: engine_clears)
    with assms show ?thesis by (simp add: isToday_def truthyStr_def)
  next
    case 3
    then have "\<not> missingRequiredFields ?o" "truthyBool (isBelow ?o)"
      by (simp_all add: missingRequiredFields_output processNotifications_isBelow)
    from engine_suppresses [OF this refl assms] show ?thesis by simp
  qed
qed

text \<open>
  Claim C7: for a product whose price is unchanged from the previous scan and whose
  \<^verbatim>\<open>lastNotifiedDate\<close> is today (a scan does not write that field, so the previous
  record carries the same date), the engine sends nothing, and applying it a second
  time the same day (to the record the first application returned, at any time of that
  day and whatever the notifier would answer) returns the same record and sends
  nothing. The engine called again on the same arguments that day gives the same
  output. The record returned by the first application is the product with the
  notification fields of the previous record, unless the engine's earlier rules apply
  (a required field is missing: the product as it is; no longer below target: the
  fields cleared).
\<close>

theorem suppression_idempotent:
  assumes "currentPrice previousProduct = currentPrice product"
    and "lastNotifiedDate previousProduct = lastNotifiedDate product"
    and "isToday env (lastNotifiedDate product)"
    and "isToday env' (lastNotifiedDate product)"
  shows "let (out1, sent1) = processNotifications env product previousProduct;
             (out2, sent2) = processNotifications env' out1 out1
         in sent1 = [] \<and> sent2 = [] \<and> out2 = out1
            \<and> processNotifications env' product previousProduct = (out1, sent1)
            \<and> out1 = (if missingRequiredFields product then product
                        else if \<not> truthyBool (isBelow product)
                        then product\<lparr>lastNotifiedPrice := None, lastNotifiedDate := None\<rparr>
                        else product\<lparr>lastNotifiedPrice := lastNotifiedPrice previousProduct,
                                      lastNotifiedDate := lastNotifiedDate previousProduct\<rparr>)"
proof -
  consider "missingRequiredFields product"
    | "\<not> missingRequiredFields product" "\<not> truthyBool (isBelow product)"
    | "\<not> missingRequiredFields product" "truthyBool (isBelow product)"
    by blast
  then show ?thesis
  proof cases
    case 1
    then show ?thesis by (simp add: engine_skips)
  next
    case 2
    let ?c = "product\<lparr>lastNotifiedPrice := None, lastNotifiedDate := None\<rparr>"
    from 2 have "\<not> missingRequiredFields ?c" "\<not> truthyBool (isBelow ?c)"
      by (simp_all add: missingRequiredFields_def)
    then have "processNotifications env' ?c ?c = (?c, [])"
      by (simp add: engine_clears)
    with 2 show ?thesis by (simp add: engine_clears)
  next
    case 3
    let ?k = "product\<lparr>lastNotifiedPrice := lastNotifiedPrice previousProduct,
                       lastNotifiedDate := lastNotifiedDate previousProduct\<rparr>"
    from 3 have "\<not> missingRequiredFields ?k" "truthyBool (isBelow ?k)"
      by (simp_all add: missingRequiredFields_def)
    moreover from assms(2,4) have "isToday env' (lastNotifiedDate ?k)" by simp
    ultimately have "processNotifications env' ?k ?k = (?k, [])"
      by (simp add: engine_suppresses)
    with 3 assms show ?thesis by (simp add: engine_suppresses)
  qed
qed

text \<open>
  The watch was notified in the morning at 100 and still costs 100: at noon and in the
  evening the engine returns it as it is and sends nothing.
\<close>

theorem suppression_idempotent_witness:
  "isToday noon (lastNotifiedDate watch) \<and> isToday evening (lastNotifiedDate watch)
   \<and> processNotifications noon watch watch = (watch, [])
   \<and> processNotifications evening watch watch = (watch, [])"
proof -
  have d: "lastNotifiedDate watch = Some ''2024-05-01T08:00:00.000Z''"
    by (simp add: watch_def)
  have n: "isToday noon (lastNotifiedDate watch)" and e: "isToday evening (lastNotifiedDate watch)"
    by (simp_all add: d today_morning today_morning_evening)
  have "\<not> missingRequiredFields watch" "truthyBool (isBelow watch)"
    by (simp_all add: missingRequiredFields_def watch_def truthyStr_def truthyNum_def
          truthyBool_def)
  then show ?thesis
    using suppression_idempotent [of watch watch noon evening] n e
    by (simp add: Let_def split_beta prod_eq_iff)
qed

text \<open>
  Claim C6 as stated fails: the rule for an unchanged price comes first. The watch was
  notified today at 100; the previous scan already read 98 (its message did not go
  out), and the new scan reads 98 again. The drop from the notified price is 2 per
  cent, and nothing is dispatched.
\<close>

theorem further_drop_counterexample:
  "lastNotifiedPrice (watch\<lparr>currentPrice := Some 98\<rparr>) = Some 100
   \<and> isToday noon (lastNotifiedDate (watch\<lparr>currentPrice := Some 98\<rparr>))
   \<and> currentPrice (watch\<lparr>currentPrice := Some 98\<rparr>) = Some 98
   \<and> ((100 - 98) / 100 * 100 :: rat) \<ge> 1
   \<and> snd (processNotifications noon (watch\<lparr>currentPrice := Some 98\<rparr>)
             (watch\<lparr>currentPrice := Some 98\<rparr>)) = []"
  by (simp add: processNotifications_def missingRequiredFields_def Let_def watch_def
        truthyStr_def truthyNum_def truthyBool_def today_morning)

text \<open>
  Claim C6, amended: for a product that passes the engine's earlier rules (name, price
  and target present, below target, price changed since the previous scan) and was
  already notified today at a price \<open>p > 0\<close>, a further-drop message is dispatched
  exactly when the new price \<open>n\<close> satisfies \<open>(p - n) / p * 100 \<ge> 1\<close>; the notified
  price and date are then updated when the send succeeds, and in every other case the
  product is returned with its notified fields unchanged.
\<close>

theorem further_drop_threshold:
  assumes "truthyStr (name product)"
    and "currentPrice product = Some n" and "n \<noteq> 0"
    and "desiredPrice product \<noteq> 0"
    and "isBelow product = Some True"
    and "lastNotifiedPrice product = Some p" and "0 < p"
    and "isToday env (lastNotifiedDate product)"
    and "currentPrice previousProduct \<noteq> Some n"
  shows "processNotifications env product previousProduct =
           (if (p - n) / p * 100 \<ge> 1
            then (if telegramOk env
                  then product\<lparr>lastNotifiedPrice := Some n, lastNotifiedDate := Some (nowISO env)\<rparr>
                  else product, [FurtherDrop product])
            else (product, []))"
  using assms
  by (auto simp: processNotifications_def missingRequiredFields_def Let_def isToday_def
        truthyNum_def truthyBool_def keepNotified_def markNotified_def dropPercentage_def
        split: if_splits)

text \<open>
  The two examples of the specification: notified today at 100, the price was 100 at
  the previous scan; a new price of 98 dispatches a further-drop message and moves the
  notified price, a new price of 99.4 dispatches nothing and changes nothing.
\<close>

theorem further_drop_threshold_witness:
  "isToday noon (lastNotifiedDate watch)
   \<and> processNotifications noon (watch\<lparr>currentPrice := Some 98\<rparr>) watch =
       (watch\<lparr>currentPrice := Some 98, lastNotifiedPrice := Some 98,
              lastNotifiedDate := Some ''2024-05-01T12:00:00.000Z''\<rparr>,
        [FurtherDrop (watch\<lparr>currentPrice := Some 98\<rparr>)])
   \<and> processNotifications noon (watch\<lparr>currentPrice := Some (497 / 5)\<rparr>) watch =
       (watch\<lparr>currentPrice := Some (497 / 5)\<rparr>, [])"
proof -
  have n: "isToday noon (lastNotifiedDate watch)"
    by (simp add: watch_def today_morning)
  have props: "truthyStr (name watch)" "desiredPrice watch \<noteq> 0" "isBelow watch = Some True"
    "lastNotifiedPrice watch = Some 100" "currentPrice watch = Some 100"
    "telegramOk noon" "nowISO noon = ''2024-05-01T12:00:00.000Z''"
    by (simp_all add: watch_def truthyStr_def noon_def)
  show ?thesis
    using further_drop_threshold [of "watch\<lparr>currentPrice := Some 98\<rparr>" 98 100 noon watch]
      further_drop_threshold [of "watch\<lparr>currentPrice := Some (497 / 5)\<rparr>" "497 / 5" 100
        noon watch]
      n props
    by simp
qed

section \<open>Facts about processing one product\<close>

text \<open>
  An attempt that returns usable data, after attempts that threw and with no stop
  request seen on the way, ends the loop with the record built from that data and
  passed through the notification engine.
\<close>

lemma attemptLoop_success:
  assumes "k \<le> maxRetries"
    and "\<forall>j<k. \<exists>e. scrapeProduct (unsupported env) (responses env j) = Inl e"
    and "\<forall>j. 0 < j \<and> j \<le> k \<longrightarrow> \<not> stopLater env j"
    and "scrapeProduct (unsupported env) (responses env k) = Inr d"
    and "\<not> (isAmazon product \<and> \<not> truthyNum (price d))"
  shows "a \<le> k \<Longrightarrow> attemptLoop env False product a =
           (case processNotifications env (applyScrape (checkedAt env) product d) product of
              (updatedProduct, sent) \<Rightarrow> (Inr updatedProduct, sent))"
proof (induction "k - a" arbitrary: a)
  case 0
  then have "a = k" by simp
  with assms show ?case
    by (subst attemptLoop.simps) (auto simp: Let_def)
next
  case (Suc n)
  then have lt: "a < k" by simp
  with assms(2) obtain e where "scrapeProduct (unsupported env) (responses env a) = Inl e"
    by blast
  moreover from lt assms(1) have "a \<le> maxRetries" "a \<noteq> maxRetries" by simp_all
  moreover from lt assms(3) have "\<not> (if a = 0 then False else stopLater env a)" by simp
  moreover from Suc have "attemptLoop env False product (a + 1) =
           (case processNotifications env (applyScrape (checkedAt env) product d) product of
              (updatedProduct, sent) \<Rightarrow> (Inr updatedProduct, sent))"
    by simp
  ultimately show ?case
    by (subst attemptLoop.simps) simp
qed

text \<open>
  Claim C5: for every product whose scan attempt succeeds (attempt \<open>k\<close> returns data,
  the attempts before it threw, no stop request was seen, and the data is not an
  Amazon result without a price, which the source treats as a blocked read), the
  returned record has
  \<open>isBelow = (currentPrice > 0 \<and> currentPrice \<le> desiredPrice)\<close>; in particular
  \<open>isBelow\<close> is not true when the current price is absent or zero.
\<close>

theorem isBelow_after_successful_scan:
  assumes "k \<le> maxRetries"
    and "\<forall>j<k. \<exists>e. scrapeProduct (unsupported env) (responses env j) = Inl e"
    and "\<forall>j. 0 < j \<and> j \<le> k \<longrightarrow> \<not> stopLater env j"
    and "scrapeProduct (unsupported env) (responses env k) = Inr d"
    and "\<not> (isAmazon product \<and> \<not> truthyNum (price d))"
  shows "\<exists>r sent. processSingleProduct env False product = (Inr r, sent)
           \<and> currentPrice r = price d
           \<and> desiredPrice r = desiredPrice product
           \<and> isBelow r = Some (case currentPrice r of
                                 None \<Rightarrow> False
                               | Some v \<Rightarrow> 0 < v \<and> v \<le> desiredPrice r)
           \<and> (currentPrice r = None \<or> currentPrice r = Some 0 \<longrightarrow> isBelow r \<noteq> Some True)"
proof -
  let ?u = "applyScrape (checkedAt env) product d"
  let ?r = "fst (processNotifications env ?u product)"
  have run: "processSingleProduct env False product =
          (Inr ?r, snd (processNotifications env ?u product))"
    using attemptLoop_success [OF assms, of 0]
    by (simp add: processSingleProduct_def split_beta)
  have cur: "currentPrice ?r = price d"
    by (simp add: processNotifications_currentPrice applyScrape_def)
  have des: "desiredPrice ?r = desiredPrice product"
    by (simp add: processNotifications_desiredPrice applyScrape_def)
  have bel: "isBelow ?r = Some (case price d of
                                 None \<Rightarrow> False
                               | Some v \<Rightarrow> 0 < v \<and> v \<le> desiredPrice product)"
    by (simp add: processNotifications_isBelow applyScrape_def)
  from run cur des bel show ?thesis
    by (auto split: option.splits)
qed

text \<open>
  The shirt with target 1000: the first request fails, the second returns the price
  950, and the record is below target.
\<close>

theorem isBelow_after_successful_scan_witness:
  "scrapeProduct (unsupported secondTry) (responses secondTry 0) = Inl FetchFailed
   \<and> scrapeProduct (unsupported secondTry) (responses secondTry 1) = Inr offer950
   \<and> \<not> isAmazon shirt
   \<and> (\<exists>r sent. processSingleProduct secondTry False shirt = (Inr r, sent)
         \<and> currentPrice r = Some 950 \<and> desiredPrice r = 1000 \<and> isBelow r = Some True)"
proof -
  have first: "scrapeProduct (unsupported secondTry) (responses secondTry 0) = Inl FetchFailed"
    and second: "scrapeProduct (unsupported secondTry) (responses secondTry 1) = Inr offer950"
    by (simp_all add: secondTry_def blocked_def scrapeProduct_def)
  have shop: "\<not> isAmazon shirt"
    by (simp add: isAmazon_def shirt_def lower_Myntra)
  have quiet: "\<forall>j. 0 < j \<and> j \<le> 1 \<longrightarrow> \<not> stopLater secondTry j"
    by (simp add: secondTry_def blocked_def)
  from first have earlier:
    "\<forall>j<1. \<exists>e. scrapeProduct (unsupported secondTry) (responses secondTry j) = Inl e"
    by simp
  have "1 \<le> maxRetries" by (simp add: maxRetries_def)
  from isBelow_after_successful_scan [OF this earlier quiet second, of shirt] shop first second
  show ?thesis
    by (auto simp: offer950_def shirt_def)
qed

text \<open>
  Claim C9: when the extraction fails on all three attempts, an Amazon product is
  returned as it was, in every field; a product of any other platform is returned as
  it was except for \<^verbatim>\<open>lastChecked\<close>, which is the current time. Nothing is handed to
  the notifier.
\<close>

theorem exhausted_retries:
  assumes "\<forall>k \<le> maxRetries. \<exists>e. scrapeProduct (unsupported env) (responses env k) = Inl e"
    and "\<forall>k. 0 < k \<and> k \<le> maxRetries \<longrightarrow> \<not> stopLater env k"
  shows "processSingleProduct env False product =
           (Inr (if isAmazon product then product
                 else product\<lparr>lastChecked := Some (checkedAt env)\<rparr>), [])"
proof -
  let ?kept = "(Inr (if isAmazon product then product
                 else product\<lparr>lastChecked := Some (checkedAt env)\<rparr>), [])
               :: (error + Product) \<times> telegram_message list"
  from assms(1) obtain e0 e1 e2 where fails:
    "scrapeProduct (unsupported env) (responses env 0) = Inl e0"
    "scrapeProduct (unsupported env) (responses env (Suc 0)) = Inl e1"
    "scrapeProduct (unsupported env) (responses env (Suc (Suc 0))) = Inl e2"
    by (auto simp: maxRetries_def numeral_2_eq_2 le_Suc_eq all_conj_distrib)
  from assms(2) have nostop: "\<not> stopLater env (Suc 0)" "\<not> stopLater env (Suc (Suc 0))"
    by (simp_all add: maxRetries_def numeral_2_eq_2)
  have third: "attemptLoop env False product (Suc (Suc 0)) = ?kept"
    by (subst attemptLoop.simps) (simp add: fails nostop maxRetries_def numeral_2_eq_2)
  have second: "attemptLoop env False product (Suc 0) = ?kept"
    by (subst attemptLoop.simps) (simp add: fails nostop third maxRetries_def numeral_2_eq_2)
  have "attemptLoop env False product 0 = ?kept"
    by (subst attemptLoop.simps) (simp add: fails second maxRetries_def numeral_2_eq_2)
  then show ?thesis by (simp add: processSingleProduct_def)
qed

text \<open>The kettle (Amazon) and the shirt (Myntra) on a site that answers with HTTP errors.\<close>

theorem exhausted_retries_witness:
  "scrapeProduct (unsupported blocked) (responses blocked 0) = Inl ScrapeFailed
   \<and> scrapeProduct (unsupported blocked) (responses blocked 1) = Inl ScrapeFailed
   \<and> scrapeProduct (unsupported blocked) (responses blocked 2) = Inl ScrapeFailed
   \<and> processSingleProduct blocked False kettle = (Inr kettle, [])
   \<and> processSingleProduct blocked False shirt =
       (Inr (shirt\<lparr>lastChecked := Some ''2024-05-01T12:00:00.000Z''\<rparr>), [])"
proof -
  have fails: "scrapeProduct (unsupported blocked) (responses blocked k) = Inl ScrapeFailed" for k
    by (simp add: blocked_def scrapeProduct_def)
  then have all: "\<forall>k \<le> maxRetries. \<exists>e. scrapeProduct (unsupported blocked) (responses blocked k) = Inl e"
    by simp
  have quiet: "\<forall>k. 0 < k \<and> k \<le> maxRetries \<longrightarrow> \<not> stopLater blocked k"
    by (simp add: blocked_def)
  have "isAmazon kettle" "\<not> isAmazon shirt" "checkedAt blocked = ''2024-05-01T12:00:00.000Z''"
    by (simp_all add: isAmazon_def kettle_def shirt_def lower_Amazon lower_Myntra blocked_def)
  with exhausted_retries [OF all quiet, of kettle] exhausted_retries [OF all quiet, of shirt] fails
  show ?thesis by simp
qed

text \<open>Every path of the retry loop ends in a fulfilled promise.\<close>

lemma attemptLoop_fulfilled: "\<exists>r. fst (attemptLoop env stopNow product attempt) = Inr r"
proof (induction env stopNow product attempt rule: attemptLoop.induct)
  case (1 env stopNow product attempt)
  show ?case
    by (subst attemptLoop.simps) (use 1 in \<open>auto simp: split_beta split: sum.splits\<close>)
qed

lemma processSingleProduct_fulfilled:
  "\<exists>r. fst (processSingleProduct env stopNow product) = Inr r"
  using attemptLoop_fulfilled by (simp add: processSingleProduct_def)

lemma runBatch_fulfilled:
  assumes "r \<in> set (map fst (runBatch env platform i stopNow batch))"
  shows "fulfilled r"
proof -
  from assms obtain j p
    where "r = fst (processSingleProduct (productEnv env platform (i + j)) stopNow p)"
    by (auto simp: runBatch_def)
  with processSingleProduct_fulfilled [of "productEnv env platform (i + j)" stopNow p]
  show ?thesis by (auto simp: fulfilled_def)
qed

lemma handleResults_no_failure:
  "\<forall>r \<in> set rs. fulfilled (fst r) \<Longrightarrow>
     fst (snd (handleResults rs updatedProducts failures notified)) = failures"
  by (induction rs updatedProducts failures notified rule: handleResults.induct)
     (auto simp: fulfilled_def split: sum.splits)

lemma batchStep_no_failure:
  "failureCount (fst (snd (batchStep env platform platformProducts i updatedProducts c w)))
     = failureCount c"
proof -
  let ?batch = "take BATCH_SIZE (drop i platformProducts)"
  let ?results = "map fst (runBatch env platform i (stopRequested w) ?batch)"
  have "\<forall>r \<in> set (zip ?results ?batch). fulfilled (fst r)"
  proof
    fix r assume "r \<in> set (zip ?results ?batch)"
    then have "fst r \<in> set ?results" by (metis set_zip_leftD prod.collapse)
    then show "fulfilled (fst r)" by (rule runBatch_fulfilled)
  qed
  then have "fst (snd (handleResults (zip ?results ?batch) updatedProducts
                    (failureCount c) (notificationCount c))) = failureCount c"
    by (rule handleResults_no_failure)
  then show ?thesis
    by (simp add: batchStep_def Let_def split_beta)
qed

lemma batchLoop_no_failure:
  "failureCount (fst (snd (batchLoop env platform platformProducts i updatedProducts c w)))
     = failureCount c"
proof (induction env platform platformProducts i updatedProducts c w rule: batchLoop.induct)
  case (1 env platform platformProducts i updatedProducts c w)
  show ?case
  proof (cases "i < length platformProducts \<and> \<not> stopRequested w")
    case False
    then show ?thesis by (subst batchLoop.simps) auto
  next
    case True
    obtain u c' w' where step:
      "batchStep env platform platformProducts i updatedProducts c w = (u, c', w')"
      by (metis prod_cases3)
    with batchStep_no_failure [of env platform platformProducts i updatedProducts c w]
    have "failureCount c' = failureCount c" by simp
    moreover from 1 True step
    have "failureCount (fst (snd (batchLoop env platform platformProducts (i + BATCH_SIZE) u c' w')))
            = failureCount c'"
      by simp
    ultimately show ?thesis
      by (subst batchLoop.simps) (simp add: True step)
  qed
qed

text \<open>
  Claim C10: \<^verbatim>\<open>processSingleProduct\<close> always resolves with a product and never
  rejects, whatever the scrape API, the notifier and the stop flag do; so the loop over
  the settled results never takes the branch for a rejected promise, and the failure
  count of a pass stays where it was.
\<close>

theorem never_rejects:
  "(\<exists>r. fst (processSingleProduct penv stopNow product) = Inr r)
   \<and> failureCount (fst (snd (batchLoop env platform platformProducts i updatedProducts c w)))
       = failureCount c"
  using processSingleProduct_fulfilled batchLoop_no_failure by blast

theorem never_rejects_witness:
  "(\<exists>r. fst (processSingleProduct blocked False shirt) = Inr r)
   \<and> failureCount (fst (snd (batchLoop stopInAmazon ''myntra'' [shirt, scarf] 0 [] zero idle))) = 0"
  using never_rejects [of blocked False shirt stopInAmazon "''myntra''" "[shirt, scarf]" 0 "[]"
      zero idle]
  by (simp add: zero_def)

section \<open>Facts about the scan handler\<close>

text \<open>The batch loop touches the stop flag and the messages, nothing else.\<close>

lemma stopRoute_frame:
  "stopRoute called w = w\<lparr>stopRequested := stopRequested w \<or> (called \<and> scanInProgress w)\<rparr>"
  by (simp add: stopRoute_def requestScannerStop_def)

lemma batchStep_frame:
  "sameButStop w (snd (snd (batchStep env platform platformProducts i updatedProducts c w)))"
  by (simp add: sameButStop_def batchStep_def Let_def split_beta stopRoute_frame)

lemma batchLoop_frame:
  "sameButStop w (snd (snd (batchLoop env platform platformProducts i updatedProducts c w)))"
proof (induction env platform platformProducts i updatedProducts c w rule: batchLoop.induct)
  case (1 env platform platformProducts i updatedProducts c w)
  show ?case
  proof (cases "i < length platformProducts \<and> \<not> stopRequested w")
    case False
    then show ?thesis by (subst batchLoop.simps) (auto simp: sameButStop_def)
  next
    case True
    obtain u c' w' where step:
      "batchStep env platform platformProducts i updatedProducts c w = (u, c', w')"
      by (metis prod_cases3)
    with batchStep_frame [of w env platform platformProducts i updatedProducts c]
    have "sameButStop w w'" by simp
    moreover from 1 True step
    have "sameButStop w' (snd (snd (batchLoop env platform platformProducts (i + BATCH_SIZE) u c' w')))"
      by simp
    ultimately show ?thesis
      by (subst batchLoop.simps) (use True step in \<open>simp add: sameButStop_def\<close>)
  qed
qed

lemma batchLoop_files:
  "batchLoop env platform platformProducts i updatedProducts c w = (u, c', w') \<Longrightarrow>
     files w' = files w \<and> scanInProgress w' = scanInProgress w \<and> logFile w' = logFile w
     \<and> timers w' = timers w \<and> stateFile w' = stateFile w"
  using batchLoop_frame [of w env platform platformProducts i updatedProducts c]
  by (simp add: sameButStop_def)

lemma platformLoop_stopped:
  "stopRequested w \<Longrightarrow> platformLoop env groups c w = (None, c, w)"
  by (cases groups) auto

lemma platformLoop_error:
  "platformLoop env groups c w = (Some e, c', w') \<Longrightarrow> \<not> stopRequested w'"
proof (induction env groups c w rule: platformLoop.induct)
  case (1 env c w)
  then show ?case by simp
next
  case (2 env platform platformProducts rest c w)
  show ?case
  proof (cases "stopRequested w")
    case True
    with 2(3) show ?thesis by simp
  next
    case False
    obtain u c1 w1 where loop: "batchLoop env platform platformProducts 0 [] c w = (u, c1, w1)"
      by (metis prod_cases3)
    show ?thesis
    proof (cases "u \<noteq> [] \<and> \<not> stopRequested w1")
      case True
      obtain r fs where save:
        "saveProducts False (saveThrows env platform) platform u (files w1) = (r, fs)"
        by (metis surj_pair)
      show ?thesis
      proof (cases r)
        case (Inl e')
        with 2(3) False loop True save have "w' = w1\<lparr>files := fs\<rparr>" by simp
        with True show ?thesis by simp
      next
        case (Inr saved)
        with 2(3) False loop True save
        have "platformLoop env rest c1 (w1\<lparr>files := fs\<rparr>) = (Some e, c', w')" by simp
        with 2(1) False loop True save Inr show ?thesis by simp
      qed
    next
      case no: False
      with 2(3) False loop have "platformLoop env rest c1 w1 = (Some e, c', w')" by auto
      with 2(2) False loop no show ?thesis by auto
    qed
  qed
qed

lemma finishScan_flags:
  "finishScan isContinuousScan c removedCount w = (r, w') \<Longrightarrow>
     \<not> scanInProgress w' \<and> \<not> stopRequested w'"
  by (auto simp: finishScan_def Let_def split: if_splits)

lemma afterLoop_flags:
  assumes "afterLoop env isContinuousScan products c w1 = (res, w')"
  shows "\<not> stopRequested w' \<and> (\<forall>r. res = Inr r \<longrightarrow> \<not> scanInProgress w')"
proof -
  let ?w2 = "w1\<lparr>logFile := logScanActivity (logFile w1)
                 (ScanEntry (if stopRequested w1 then Stopped else Completed) (length products)
                    (successCount c) (failureCount c) (notificationCount c) isContinuousScan
                    (stopRequested w1))\<rparr>"
  let ?w3 = "if notificationCount c > 0
             then stopRoute (stopDuringSummary env)
                    (?w2\<lparr>outbox := outbox ?w2 @
                          [ScanSummary (notificationCount c) (length products)
                             (stopRequested ?w2)]\<rparr>)
             else ?w2"
  show ?thesis
  proof (cases "stopRequested ?w3")
    case True
    obtain r w4 where fin: "finishScan isContinuousScan c 0 ?w3 = (r, w4)"
      by (metis surj_pair)
    with assms True have "w' = w4"
      by (simp add: afterLoop_def Let_def split: if_splits)
    with finishScan_flags [OF fin] show ?thesis by simp
  next
    case False
    obtain cerr removed fs where clean:
      "cleanupOldProducts env (files ?w3) = (cerr, removed, fs)"
      by (metis prod_cases3)
    show ?thesis
    proof (cases cerr)
      case (Some e)
      with assms False clean
      have "w' = ?w3\<lparr>files := fs\<rparr> \<and> res = Inl e"
        by (auto simp: afterLoop_def Let_def split: if_splits)
      with False show ?thesis by auto
    next
      case None
      obtain r w4 where fin:
        "finishScan isContinuousScan c removed (?w3\<lparr>files := fs\<rparr>) = (r, w4)"
        by (metis surj_pair)
      with assms False clean None have "w' = w4"
        by (auto simp: afterLoop_def Let_def split: if_splits)
      with finishScan_flags [OF fin] show ?thesis by simp
    qed
  qed
qed

lemma scanProducts_flags:
  assumes "scanProducts env isContinuousScan products w = (res, w')"
    and "\<not> stopRequested w"
  shows "\<not> stopRequested w' \<and> (\<forall>r. res = Inr r \<longrightarrow> \<not> scanInProgress w')"
proof (cases "groupProducts products []")
  case (Inl e)
  with assms show ?thesis by (auto simp: scanProducts_def)
next
  case (Inr byPlatform)
  obtain err c w1 where loop:
    "platformLoop env (objectEntries byPlatform)
       \<lparr>successCount = 0, failureCount = 0, notificationCount = 0\<rparr> w = (err, c, w1)"
    by (metis prod_cases3)
  show ?thesis
  proof (cases err)
    case (Some e)
    with loop have "\<not> stopRequested w1" by (auto dest: platformLoop_error)
    with assms(1) Inr loop Some show ?thesis by (auto simp: scanProducts_def)
  next
    case None
    with assms(1) Inr loop have "afterLoop env isContinuousScan products c w1 = (res, w')"
      by (simp add: scanProducts_def)
    then show ?thesis by (rule afterLoop_flags)
  qed
qed

text \<open>
  The handler's \<^verbatim>\<open>catch\<close> block assigns \<^verbatim>\<open>scanInProgress\<close> only. It is reached
  from a throw of \<^verbatim>\<open>saveProducts\<close> (in the platform loop or in the retention pass) or
  from the grouping, and each of them runs only while the stop flag is clear: the save
  of a platform and the retention pass are guarded by \<^verbatim>\<open>!stopRequested\<close>, and no
  request is handled between the guard and the throw. So the stop flag is clear
  whenever the \<^verbatim>\<open>catch\<close> block runs.
\<close>

lemma GET_flags:
  assumes "\<not> scanInProgress w" and "\<not> stopRequested w"
  shows "\<not> scanInProgress (snd (GET env w)) \<and> \<not> stopRequested (snd (GET env w))"
proof -
  obtain cont sf where st: "getScannerState (stateFile w) = (cont, sf)"
    by (metis surj_pair)
  obtain products fs where load: "getAllProducts (files w) = (products, fs)"
    by (metis surj_pair)
  let ?w1 = "w\<lparr>stateFile := sf, scanInProgress := True, files := fs\<rparr>"
  show ?thesis
  proof (cases "products = []")
    case True
    with assms st load show ?thesis by (simp add: GET_def Let_def)
  next
    case False
    obtain res w2 where scan: "scanProducts env cont products ?w1 = (res, w2)"
      by (metis surj_pair)
    from assms(2) have "\<not> stopRequested ?w1" by simp
    from scanProducts_flags [OF scan this]
    have "\<not> stopRequested w2" "\<forall>r. res = Inr r \<longrightarrow> \<not> scanInProgress w2" by simp_all
    with assms st load False scan show ?thesis
      by (cases res) (simp_all add: GET_def Let_def)
  qed
qed

lemma reachable_flags: "reachable w \<Longrightarrow> \<not> scanInProgress w \<and> \<not> stopRequested w"
  by (induction rule: reachable.induct) (simp_all add: GET_flags requestScannerStop_def)

text \<open>
  Claim C2: however a scan pass ends (completed, stopped, or with an exception caught
  by the handler), both \<^verbatim>\<open>scanInProgress\<close> and \<^verbatim>\<open>stopRequested\<close> are
  \<^verbatim>\<open>false\<close> when the handler returns, so the next call starts a new scan. The pass
  starts from a state of the module between two runs, where both flags are
  \<^verbatim>\<open>false\<close> (lemma \<open>reachable_flags\<close>).
\<close>

theorem flags_reset_after_scan:
  assumes "\<not> scanInProgress w" and "\<not> stopRequested w"
  shows "\<not> scanInProgress (snd (GET env w)) \<and> \<not> stopRequested (snd (GET env w))"
  using assms by (rule GET_flags)

text \<open>The sample scan passes, evaluated step by step.\<close>

lemma first_alert:
  assumes "price d = Some 950" and "productName d \<noteq> []"
    and "desiredPrice product = 1000" and "lastNotifiedDate product = None"
    and "currentPrice product = None"
  shows "processSingleProduct (answers d) False product
           = (Inr (alerted (seen product d)), [PriceAlert (seen product d)])"
proof -
  let ?s = "seen product d"
  have s: "name ?s = Some (productName d)" "currentPrice ?s = Some 950" "desiredPrice ?s = 1000"
    "isBelow ?s = Some True" "lastNotifiedDate ?s = None"
    using assms by (simp_all add: seen_def applyScrape_def)
  then have "\<not> missingRequiredFields ?s"
    using assms(2) by (simp add: missingRequiredFields_def truthyStr_def truthyNum_def)
  with s assms(5) have "processNotifications (answers d) ?s product = (alerted ?s, [PriceAlert ?s])"
    by (simp add: processNotifications_def Let_def truthyBool_def truthyStr_def
          markNotified_def alerted_def answers_def blocked_def)
  moreover have "scrapeProduct (unsupported (answers d)) (responses (answers d) 0) = Inr d"
    by (simp add: answers_def blocked_def scrapeProduct_def)
  moreover have "truthyNum (price d)" using assms(1) by (simp add: truthyNum_def)
  moreover have "checkedAt (answers d) = ''2024-05-01T12:00:00.000Z''"
    by (simp add: answers_def blocked_def)
  ultimately show ?thesis
    by (simp add: processSingleProduct_def attemptLoop.simps [of _ _ _ 0] maxRetries_def seen_def)
qed

lemma shirt_alert:
  "processSingleProduct (answers offer950) False shirt
     = (Inr (alerted (seen shirt offer950)), [PriceAlert (seen shirt offer950)])"
  by (rule first_alert) (simp_all add: offer950_def shirt_def)

lemma kettle_alert:
  "processSingleProduct (answers kettle950) False kettle
     = (Inr (alerted (seen kettle kettle950)), [PriceAlert (seen kettle kettle950)])"
  by (rule first_alert) (simp_all add: kettle950_def kettle_def shirt_def)

lemma lower_id:
  "toLowerCase ''myntra'' = ''myntra''" "toLowerCase ''amazon'' = ''amazon''"
  "toLowerCase ''flipkart'' = ''flipkart''" "toLowerCase ''unknown'' = ''unknown''"
  by (simp_all add: toLowerCase_def lowerChar_def)

lemma load_idle: "getAllProducts (files idle) = ([shirt, kettle], loaded)"
  by (simp add: getAllProducts_def platforms_def loadProducts_def lower_id idle_def loaded_def)

lemma not_index: "arrayIndex ''myntra'' = None" "arrayIndex ''amazon'' = None"
  by (simp_all add: arrayIndex_def digitValue_def)

lemma group_idle:
  "groupProducts [shirt, kettle] [] = Inr [(''myntra'', [shirt]), (''amazon'', [kettle])]"
  by (simp add: platformKey_def shirt_def kettle_def lower_Myntra lower_Amazon map_get_def
        inherited_def)

lemma entries_idle:
  "objectEntries [(''myntra'', [shirt]), (''amazon'', [kettle])]
     = [(''myntra'', [shirt]), (''amazon'', [kettle])]"
  by (simp add: objectEntries_def not_index)


lemma counted: "newNotification (alerted (seen product d)) product"
  if "lastNotifiedDate product = None" for product d
  using that by (simp add: newNotification_def alerted_def truthyStr_def)

lemma batchLoop_done:
  "length platformProducts \<le> i \<Longrightarrow>
     batchLoop env platform platformProducts i updatedProducts c w = (updatedProducts, c, w)"
  by (subst batchLoop.simps) simp

lemma single_batch:
  assumes "platformProducts \<noteq> []" and "length platformProducts \<le> BATCH_SIZE"
    and "\<not> stopRequested w"
  shows "batchLoop env platform platformProducts 0 updatedProducts c w
           = batchStep env platform platformProducts 0 updatedProducts c w"
  using assms
  by (subst batchLoop.simps) (simp add: batchLoop_done split: prod.splits)

lemma myntra_batch:
  "batchLoop stopInAmazon ''myntra'' [shirt] 0 [] zero started
     = ([alerted (seen shirt offer950)],
        \<lparr>successCount = 1, failureCount = 0, notificationCount = 1\<rparr>,
        started\<lparr>outbox := [PriceAlert (seen shirt offer950)]\<rparr>)"
proof -
  have c: "newNotification (alerted (seen shirt offer950)) shirt"
    by (rule counted) (simp add: shirt_def)
  have step: "batchStep stopInAmazon ''myntra'' [shirt] 0 [] zero started
     = ([alerted (seen shirt offer950)],
        \<lparr>successCount = 1, failureCount = 0, notificationCount = 1\<rparr>,
        started\<lparr>outbox := [PriceAlert (seen shirt offer950)]\<rparr>)"
    by (simp add: batchStep_def Let_def runBatch_def BATCH_SIZE_def stopInAmazon_def
          started_def idle_def shirt_alert fulfilled_def zero_def c stopRoute_def)
  have "\<not> stopRequested started" by (simp add: started_def idle_def)
  then have "batchLoop stopInAmazon ''myntra'' [shirt] 0 [] zero started
               = batchStep stopInAmazon ''myntra'' [shirt] 0 [] zero started"
    by (intro single_batch) (simp_all add: BATCH_SIZE_def)
  with step show ?thesis by (simp only:)
qed

lemma pid_alerted: "pid (alerted (seen product d)) = pid product"
  by (simp add: alerted_def seen_def applyScrape_def)

lemma start_idle:
  "idle\<lparr>stateFile := snd (getScannerState (stateFile idle)), scanInProgress := True,
         files := loaded\<rparr> = started"
  by (simp add: started_def idle_def getScannerState_def)

lemma myntra_done:
  "platformLoop stopInAmazon [(''myntra'', [shirt])] zero started
     = (None, \<lparr>successCount = 1, failureCount = 0, notificationCount = 1\<rparr>, myntraSaved)"
proof -
  have "mergedProducts [shirt] [alerted (seen shirt offer950)] = [alerted (seen shirt offer950)]"
    by (simp add: mergedProducts_def map_has_def map_get_def map_delete_def pid_alerted)
  then have "saveProducts False False ''myntra'' [alerted (seen shirt offer950)] loaded
               = (Inr True, loaded(''myntra'' := Stored [alerted (seen shirt offer950)]))"
    by (simp add: saveProducts_def saveFile_def lower_id loaded_def idle_def)
  moreover have "saveThrows stopInAmazon ''myntra'' = False" by (simp add: stopInAmazon_def)
  moreover have "\<not> stopRequested started" "files started = loaded"
    by (simp_all add: started_def idle_def)
  ultimately show ?thesis
    by (simp add: myntra_batch myntraSaved_def)
qed

lemma amazon_batch:
  "batchLoop stopInAmazon ''amazon'' [kettle] 0 []
       \<lparr>successCount = 1, failureCount = 0, notificationCount = 1\<rparr> myntraSaved
     = ([alerted (seen kettle kettle950)],
        \<lparr>successCount = 2, failureCount = 0, notificationCount = 2\<rparr>,
        myntraSaved\<lparr>outbox := [PriceAlert (seen shirt offer950),
                                 PriceAlert (seen kettle kettle950)],
                     stopRequested := True\<rparr>)"
proof -
  have c: "newNotification (alerted (seen kettle kettle950)) kettle"
    by (rule counted) (simp add: kettle_def shirt_def)
  have step: "batchStep stopInAmazon ''amazon'' [kettle] 0 []
       \<lparr>successCount = 1, failureCount = 0, notificationCount = 1\<rparr> myntraSaved
     = ([alerted (seen kettle kettle950)],
        \<lparr>successCount = 2, failureCount = 0, notificationCount = 2\<rparr>,
        myntraSaved\<lparr>outbox := [PriceAlert (seen shirt offer950),
                                 PriceAlert (seen kettle kettle950)],
                     stopRequested := True\<rparr>)"
    by (simp add: batchStep_def Let_def runBatch_def BATCH_SIZE_def stopInAmazon_def
          myntraSaved_def started_def idle_def kettle_alert fulfilled_def c stopRoute_def
          requestScannerStop_def)
  have "\<not> stopRequested myntraSaved"
    by (simp add: myntraSaved_def started_def idle_def)
  then have "batchLoop stopInAmazon ''amazon'' [kettle] 0 []
               \<lparr>successCount = 1, failureCount = 0, notificationCount = 1\<rparr> myntraSaved
             = batchStep stopInAmazon ''amazon'' [kettle] 0 []
               \<lparr>successCount = 1, failureCount = 0, notificationCount = 1\<rparr> myntraSaved"
    by (intro single_batch) (simp_all add: BATCH_SIZE_def)
  with step show ?thesis by (simp only:)
qed


lemma amazon_stop_run:
  shows "\<not> scanInProgress idle"
    and "getAllProducts (files idle) = ([shirt, kettle], loaded)"
    and "groupProducts [shirt, kettle] [] = Inr [(''myntra'', [shirt]), (''amazon'', [kettle])]"
    and "objectEntries [(''myntra'', [shirt]), (''amazon'', [kettle])]
            = [(''myntra'', [shirt])] @ (''amazon'', [kettle]) # []"
    and "platformLoop stopInAmazon [(''myntra'', [shirt])]
            \<lparr>successCount = 0, failureCount = 0, notificationCount = 0\<rparr>
            (idle\<lparr>stateFile := snd (getScannerState (stateFile idle)), scanInProgress := True,
                  files := loaded\<rparr>)
          = (None, \<lparr>successCount = 1, failureCount = 0, notificationCount = 1\<rparr>, myntraSaved)"
    and "\<not> stopRequested myntraSaved"
    and "batchLoop stopInAmazon ''amazon'' [kettle] 0 []
            \<lparr>successCount = 1, failureCount = 0, notificationCount = 1\<rparr> myntraSaved
          = ([alerted (seen kettle kettle950)],
             \<lparr>successCount = 2, failureCount = 0, notificationCount = 2\<rparr>,
             myntraSaved\<lparr>outbox := [PriceAlert (seen shirt offer950),
                                      PriceAlert (seen kettle kettle950)],
                          stopRequested := True\<rparr>)"
    and "stopRequested (myntraSaved\<lparr>outbox := [PriceAlert (seen shirt offer950),
                                      PriceAlert (seen kettle kettle950)],
                          stopRequested := True\<rparr>)"
proof -
  show "\<not> scanInProgress idle" by (simp add: idle_def)
  show "getAllProducts (files idle) = ([shirt, kettle], loaded)" by (rule load_idle)
  show "groupProducts [shirt, kettle] [] = Inr [(''myntra'', [shirt]), (''amazon'', [kettle])]"
    by (rule group_idle)
  show "objectEntries [(''myntra'', [shirt]), (''amazon'', [kettle])]
          = [(''myntra'', [shirt])] @ (''amazon'', [kettle]) # []"
    by (simp add: entries_idle)
  show "platformLoop stopInAmazon [(''myntra'', [shirt])]
            \<lparr>successCount = 0, failureCount = 0, notificationCount = 0\<rparr>
            (idle\<lparr>stateFile := snd (getScannerState (stateFile idle)), scanInProgress := True,
                  files := loaded\<rparr>)
          = (None, \<lparr>successCount = 1, failureCount = 0, notificationCount = 1\<rparr>, myntraSaved)"
    using myntra_done by (simp add: start_idle zero_def)
  show "\<not> stopRequested myntraSaved"
    by (simp add: myntraSaved_def started_def idle_def)
  show "batchLoop stopInAmazon ''amazon'' [kettle] 0 []
            \<lparr>successCount = 1, failureCount = 0, notificationCount = 1\<rparr> myntraSaved
          = ([alerted (seen kettle kettle950)],
             \<lparr>successCount = 2, failureCount = 0, notificationCount = 2\<rparr>,
             myntraSaved\<lparr>outbox := [PriceAlert (seen shirt offer950),
                                      PriceAlert (seen kettle kettle950)],
                          stopRequested := True\<rparr>)"
    by (rule amazon_batch)
  show "stopRequested (myntraSaved\<lparr>outbox := [PriceAlert (seen shirt offer950),
                                      PriceAlert (seen kettle kettle950)],
                          stopRequested := True\<rparr>)"
    by simp
qed

text \<open>The platform loop over a list of groups is the loop over its parts, one after the other.\<close>

lemma platformLoop_append:
  "platformLoop env (before @ rest) c w =
     (case platformLoop env before c w of
        (None, c1, w1) \<Rightarrow> platformLoop env rest c1 w1
      | (Some e, c1, w1) \<Rightarrow> (Some e, c1, w1))"
proof (induction env before c w rule: platformLoop.induct)
  case (1 env c w)
  then show ?case by simp
next
  case (2 env platform platformProducts before c w)
  show ?case
  proof (cases "stopRequested w")
    case True
    then show ?thesis by (simp add: platformLoop_stopped)
  next
    case False
    obtain u c1 w1 where loop: "batchLoop env platform platformProducts 0 [] c w = (u, c1, w1)"
      by (metis prod_cases3)
    show ?thesis
    proof (cases "u \<noteq> [] \<and> \<not> stopRequested w1")
      case True
      obtain r fs where save:
        "saveProducts False (saveThrows env platform) platform u (files w1) = (r, fs)"
        by (metis surj_pair)
      show ?thesis
      proof (cases r)
        case (Inl e)
        with False loop True save show ?thesis by simp
      next
        case (Inr saved)
        with 2(1) [OF False loop [symmetric] refl refl _ save [symmetric] Inr] False loop True save
        show ?thesis by simp
      qed
    next
      case no: False
      with 2(2) [OF False loop [symmetric] refl refl] False loop show ?thesis by auto
    qed
  qed
qed

lemma afterLoop_stopped:
  assumes "stopRequested w1"
  shows "\<exists>r w'. afterLoop env cont products c w1 = (Inr r, w')
           \<and> files w' = files w1
           \<and> logFile w' = logScanActivity (logFile w1)
                 (ScanEntry Stopped (length products) (successCount c) (failureCount c)
                    (notificationCount c) cont True)
           \<and> timers w' = (if cont then timers w1 @ [COOLDOWN] else timers w1)
           \<and> stateFile w' = stateFile w1"
  using assms
  by (simp add: afterLoop_def Let_def stopRoute_frame finishScan_def)

lemma stopped_scan:
  assumes "\<not> scanInProgress w"
    and "getAllProducts (files w) = (products, fs)"
    and "groupProducts products [] = Inr productsByPlatform"
    and "objectEntries productsByPlatform = before @ (platform, platformProducts) # rest"
    and "platformLoop env before
           \<lparr>successCount = 0, failureCount = 0, notificationCount = 0\<rparr>
           (w\<lparr>stateFile := snd (getScannerState (stateFile w)), scanInProgress := True,
              files := fs\<rparr>) = (None, c1, w1)"
    and "\<not> stopRequested w1"
    and "batchLoop env platform platformProducts 0 [] c1 w1 = (updatedProducts, c2, w2)"
    and "stopRequested w2"
  shows "files (snd (GET env w)) = files w1
         \<and> logFile (snd (GET env w)) = logScanActivity (logFile w2)
                 (ScanEntry Stopped (length products) (successCount c2) (failureCount c2)
                    (notificationCount c2) (fst (getScannerState (stateFile w))) True)
         \<and> timers (snd (GET env w)) =
               (if fst (getScannerState (stateFile w)) then timers w2 @ [COOLDOWN] else timers w2)"
proof -
  let ?w0 = "w\<lparr>stateFile := snd (getScannerState (stateFile w)), scanInProgress := True,
              files := fs\<rparr>"
  let ?zero = "\<lparr>successCount = 0, failureCount = 0, notificationCount = 0\<rparr>"
  from assms(3) have nonempty: "products \<noteq> []"
    using assms(4) by (cases products) (auto simp: objectEntries_def)
  have "platformLoop env ((platform, platformProducts) # rest) c1 w1 = (None, c2, w2)"
    using assms(6,7,8) by (simp add: platformLoop_stopped)
  then have loop: "platformLoop env (objectEntries productsByPlatform) ?zero ?w0 = (None, c2, w2)"
    using assms(4,5) by (simp add: platformLoop_append)
  from batchLoop_files [OF assms(7)] have same: "files w2 = files w1" by simp
  obtain cont sf where st: "getScannerState (stateFile w) = (cont, sf)"
    by (metis surj_pair)
  from afterLoop_stopped [OF assms(8), of env cont products c2] obtain r w'
    where after: "afterLoop env cont products c2 w2 = (Inr r, w')"
      and w': "files w' = files w2"
        "logFile w' = logScanActivity (logFile w2)
                 (ScanEntry Stopped (length products) (successCount c2) (failureCount c2)
                    (notificationCount c2) cont True)"
        "timers w' = (if cont then timers w2 @ [COOLDOWN] else timers w2)"
    by blast
  have "scanProducts env cont products ?w0 = (Inr r, w')"
    using assms(3) loop after by (simp add: scanProducts_def)
  then have "snd (GET env w) = w'"
    using assms(1,2) st nonempty by (simp add: GET_def Let_def)
  with w' same st show ?thesis by simp
qed

lemma platformLoop_frame:
  "platformLoop env groups c w = (err, c', w') \<Longrightarrow>
     timers w' = timers w \<and> scanInProgress w' = scanInProgress w
     \<and> logFile w' = logFile w \<and> stateFile w' = stateFile w"
proof (induction env groups c w rule: platformLoop.induct)
  case (1 env c w)
  then show ?case by simp
next
  case (2 env platform platformProducts rest c w)
  show ?case
  proof (cases "stopRequested w")
    case True
    with 2(3) show ?thesis by simp
  next
    case False
    obtain u c1 w1 where loop: "batchLoop env platform platformProducts 0 [] c w = (u, c1, w1)"
      by (metis prod_cases3)
    note same = batchLoop_files [OF loop]
    show ?thesis
    proof (cases "u \<noteq> [] \<and> \<not> stopRequested w1")
      case True
      obtain r fs where save:
        "saveProducts False (saveThrows env platform) platform u (files w1) = (r, fs)"
        by (metis surj_pair)
      show ?thesis
      proof (cases r)
        case (Inl e')
        with 2(3) False loop True save have "w' = w1\<lparr>files := fs\<rparr>" by simp
        with same show ?thesis by simp
      next
        case (Inr saved)
        with 2(3) False loop True save
        have "platformLoop env rest c1 (w1\<lparr>files := fs\<rparr>) = (err, c', w')" by simp
        with 2(1) False loop True save Inr same show ?thesis by simp
      qed
    next
      case no: False
      with 2(3) False loop have "platformLoop env rest c1 w1 = (err, c', w')" by auto
      with 2(2) False loop no same show ?thesis by auto
    qed
  qed
qed

text \<open>A pass that ends with an exception: the first save throws.\<close>

lemma diskFull_run: "fst (GET diskFull idle) = ScanError IoError"
proof -
  have c: "newNotification (alerted (seen shirt offer950)) shirt"
    by (rule counted) (simp add: shirt_def)
  have step: "batchStep diskFull ''myntra'' [shirt] 0 [] zero started
     = ([alerted (seen shirt offer950)],
        \<lparr>successCount = 1, failureCount = 0, notificationCount = 1\<rparr>,
        started\<lparr>outbox := [PriceAlert (seen shirt offer950)]\<rparr>)"
    by (simp add: batchStep_def Let_def runBatch_def BATCH_SIZE_def diskFull_def stopInAmazon_def
          started_def idle_def shirt_alert fulfilled_def zero_def c stopRoute_def)
  have go: "\<not> stopRequested started" by (simp add: started_def idle_def)
  then have "batchLoop diskFull ''myntra'' [shirt] 0 [] zero started
               = batchStep diskFull ''myntra'' [shirt] 0 [] zero started"
    by (intro single_batch) (simp_all add: BATCH_SIZE_def)
  with step have batch: "batchLoop diskFull ''myntra'' [shirt] 0 [] zero started
     = ([alerted (seen shirt offer950)],
        \<lparr>successCount = 1, failureCount = 0, notificationCount = 1\<rparr>,
        started\<lparr>outbox := [PriceAlert (seen shirt offer950)]\<rparr>)"
    by (simp only:)
  have "saveThrows diskFull ''myntra''" by (simp add: diskFull_def)
  then have "fst (platformLoop diskFull [(''myntra'', [shirt]), (''amazon'', [kettle])] zero started)
               = Some IoError"
    using go by (simp add: batch saveProducts_def saveFile_def)
  then obtain c1 w1 where
    "platformLoop diskFull [(''myntra'', [shirt]), (''amazon'', [kettle])] zero started
       = (Some IoError, c1, w1)"
    by (metis prod.collapse)
  then have scan: "scanProducts diskFull True [shirt, kettle] started = (Inl IoError, w1)"
    by (simp add: scanProducts_def group_idle entries_idle zero_def
          del: platformLoop.simps groupProducts.simps)
  have st: "getScannerState (stateFile idle) = (True, StateFile True)"
    by (simp add: idle_def getScannerState_def)
  have "idle\<lparr>stateFile := StateFile True, scanInProgress := True, files := loaded\<rparr> = started"
    by (simp add: started_def)
  with scan st amazon_stop_run(1) show ?thesis
    by (simp add: GET_def load_idle Let_def)
qed

text \<open>
  The pass that is stopped during the Amazon batch and the pass whose save throws both
  leave the two flags \<^verbatim>\<open>false\<close>.
\<close>

theorem flags_reset_after_scan_witness:
  "\<not> scanInProgress idle \<and> \<not> stopRequested idle
   \<and> fst (GET diskFull idle) = ScanError IoError
   \<and> \<not> scanInProgress (snd (GET diskFull idle)) \<and> \<not> stopRequested (snd (GET diskFull idle))
   \<and> \<not> scanInProgress (snd (GET stopInAmazon idle))
   \<and> \<not> stopRequested (snd (GET stopInAmazon idle))"
  using flags_reset_after_scan [of idle diskFull] flags_reset_after_scan [of idle stopInAmazon]
    diskFull_run
  by (simp add: idle_def)

text \<open>
  Claim C3 as stated fails: the platform whose batches are running when the stop flag
  is seen is not saved (\<^verbatim>\<open>if (updatedProducts.length > 0 && !stopRequested)\<close>). The
  stop route is called while the kettle is processed; the kettle's scan succeeded (price
  950), and the Amazon partition still holds the record without a price.
\<close>

theorem stop_persists_processed_counterexample:
  "stopDuringBatch stopInAmazon ''amazon'' 0
   \<and> fst (processSingleProduct (productEnv stopInAmazon ''amazon'' 0) False kettle)
       = Inr (alerted (seen kettle kettle950))
   \<and> currentPrice (alerted (seen kettle kettle950)) = Some 950
   \<and> currentPrice kettle = None
   \<and> files (snd (GET stopInAmazon idle)) ''amazon'' = Stored [kettle]"
proof -
  from stopped_scan [OF amazon_stop_run]
  have "files (snd (GET stopInAmazon idle)) = files myntraSaved" by (rule conjunct1)
  moreover have "files myntraSaved ''amazon'' = Stored [kettle]"
    by (simp add: myntraSaved_def loaded_def idle_def)
  ultimately have kept: "files (snd (GET stopInAmazon idle)) ''amazon'' = Stored [kettle]"
    by simp
  have env: "stopDuringBatch stopInAmazon ''amazon'' 0"
    "productEnv stopInAmazon ''amazon'' 0 = answers kettle950"
    by (simp_all add: stopInAmazon_def)
  have "currentPrice (alerted (seen kettle kettle950)) = Some 950" "currentPrice kettle = None"
    by (simp_all add: alerted_def seen_def applyScrape_def kettle950_def kettle_def shirt_def)
  with kept env show ?thesis by (simp add: kettle_alert)
qed

text \<open>
  Claim C3, amended: when the stop flag is clear at the start of a platform (after the
  platforms \<open>before\<close> it were processed) and set when its batches end, the scan writes
  nothing more: the partition files are those left by the platforms before it (their
  saved results are kept; the results of the current platform, processed or not, are
  discarded and its partition stays as it was, as do the partitions of the platforms
  after it), and the log entry of the scan has status \<^verbatim>\<open>stopped\<close>.
\<close>

theorem stop_discards_current_platform:
  assumes "\<not> scanInProgress w"
    and "getAllProducts (files w) = (products, fs)"
    and "groupProducts products [] = Inr productsByPlatform"
    and "objectEntries productsByPlatform = before @ (platform, platformProducts) # rest"
    and "platformLoop env before
           \<lparr>successCount = 0, failureCount = 0, notificationCount = 0\<rparr>
           (w\<lparr>stateFile := snd (getScannerState (stateFile w)), scanInProgress := True,
              files := fs\<rparr>) = (None, c1, w1)"
    and "\<not> stopRequested w1"
    and "batchLoop env platform platformProducts 0 [] c1 w1 = (updatedProducts, c2, w2)"
    and "stopRequested w2"
  shows "files (snd (GET env w)) = files w1
         \<and> entryStatus (last (logFile (snd (GET env w)))) = Stopped"
  using stopped_scan [OF assms] by (simp add: logScanActivity_def)

text \<open>
  The Myntra partition was saved before the stop; the Amazon partition is as it was.
\<close>

theorem stop_discards_current_platform_witness:
  "\<not> scanInProgress idle
   \<and> stopDuringBatch stopInAmazon ''amazon'' 0
   \<and> files (snd (GET stopInAmazon idle)) ''myntra'' = Stored [alerted (seen shirt offer950)]
   \<and> files (snd (GET stopInAmazon idle)) ''amazon'' = Stored [kettle]
   \<and> entryStatus (last (logFile (snd (GET stopInAmazon idle)))) = Stopped"
  using stop_discards_current_platform [OF amazon_stop_run]
  by (simp add: myntraSaved_def loaded_def idle_def stopInAmazon_def)

text \<open>
  Claim C4 says that no follow-up scan is scheduled after a pass that was stopped. The
  code does not look at the stop request when it sets the timer (the flag was reset
  two lines above): whenever continuous mode was enabled at the start of the pass, a
  stopped pass registers the follow-up timer with the cooldown delay, and its callback
  requests the next scan when continuous mode is enabled at that moment.
\<close>

theorem stopped_scan_still_schedules:
  assumes "\<not> scanInProgress w"
    and "getAllProducts (files w) = (products, fs)"
    and "groupProducts products [] = Inr productsByPlatform"
    and "objectEntries productsByPlatform = before @ (platform, platformProducts) # rest"
    and "platformLoop env before
           \<lparr>successCount = 0, failureCount = 0, notificationCount = 0\<rparr>
           (w\<lparr>stateFile := snd (getScannerState (stateFile w)), scanInProgress := True,
              files := fs\<rparr>) = (None, c1, w1)"
    and "\<not> stopRequested w1"
    and "batchLoop env platform platformProducts 0 [] c1 w1 = (updatedProducts, c2, w2)"
    and "stopRequested w2"
    and "fst (getScannerState (stateFile w))"
  shows "entryStatus (last (logFile (snd (GET env w)))) = Stopped
         \<and> timers (snd (GET env w)) = timers w @ [COOLDOWN]
         \<and> (\<forall>b. fst (followUp ((snd (GET env w))\<lparr>stateFile := StateFile b\<rparr>)) = b)"
proof -
  from platformLoop_frame [OF assms(5)] batchLoop_files [OF assms(7)]
  have "timers w2 = timers w" by simp
  with stopped_scan [OF assms(1-8)] assms(9) show ?thesis
    by (simp add: logScanActivity_def followUp_def getScannerState_def)
qed

text \<open>
  The failing input: continuous mode is enabled, the stop route is called during the
  Amazon batch; the pass is logged as stopped, the timer is set, and its callback
  requests a new scan.
\<close>

theorem stopped_scan_still_schedules_witness:
  "\<not> scanInProgress idle
   \<and> stopDuringBatch stopInAmazon ''amazon'' 0
   \<and> fst (getScannerState (stateFile idle))
   \<and> entryStatus (last (logFile (snd (GET stopInAmazon idle)))) = Stopped
   \<and> timers (snd (GET stopInAmazon idle)) = [COOLDOWN]
   \<and> fst (followUp ((snd (GET stopInAmazon idle))\<lparr>stateFile := StateFile True\<rparr>))"
proof -
  have cont: "fst (getScannerState (stateFile idle))"
    by (simp add: idle_def getScannerState_def)
  from stopped_scan_still_schedules [OF amazon_stop_run cont] cont show ?thesis
    by (simp add: idle_def stopInAmazon_def)
qed

end
